theory Spec2Isabelle
  imports Complex_Main "HOL-Library.Word"
begin

unbundle bit_operations_syntax

section \<open>Address spaces of the Nachos kernel (userprog/addrspace.cc)\<close>

text \<open>
  The C++ \<^verbatim>\<open>int\<close> and \<^verbatim>\<open>unsigned int\<close> are 32-bit words. A word carries the bits;
  \<open>unat\<close> reads it as \<^verbatim>\<open>unsigned\<close>, \<open>sint\<close> as \<^verbatim>\<open>int\<close>, and a conversion between the
  two C types leaves the word as it is. \<open><\<close> and \<open>\<le>\<close> on words are the unsigned
  comparisons, \<open><s\<close> and \<open>\<le>s\<close> the signed ones; \<open>div\<close> and \<open>mod\<close> on words are unsigned.
\<close>

type_synonym word32 = "32 word"
type_synonym byte = "8 word"

subsection \<open>Constants of the machine\<close>

text \<open>
  The macros \<^verbatim>\<open>PageSize\<close>, \<^verbatim>\<open>NumPhysPages\<close>, \<^verbatim>\<open>MemorySize\<close>, \<^verbatim>\<open>UserStackSize\<close>,
  \<^verbatim>\<open>NumTotalRegs\<close>, \<^verbatim>\<open>PCReg\<close>, \<^verbatim>\<open>NextPCReg\<close>, \<^verbatim>\<open>StackReg\<close>, \<^verbatim>\<open>NOFFMAGIC\<close> and
  \<^verbatim>\<open>WordToHost\<close> come from headers outside addrspace.cc. They are parameters of the
  model, collected in one record; each is a C \<^verbatim>\<open>int\<close> constant.
\<close>

record machine_config =
  PageSize :: word32
  NumPhysPages :: word32
  MemorySize :: word32
  UserStackSize :: word32
  NumTotalRegs :: word32
  PCReg :: word32
  NextPCReg :: word32
  StackReg :: word32
  NOFFMAGIC :: word32
  WordToHost :: "word32 \<Rightarrow> word32"

text \<open>
  The assumption under which the machine is sane: the page size is a positive multiple
  of 4, the memory size is the number of frames times the page size, and that product
  is an \<^verbatim>\<open>int\<close> (it does not overflow).
\<close>

definition machine_ok :: "'a machine_config_scheme \<Rightarrow> bool" where
  "machine_ok cfg \<longleftrightarrow>
     0 <s PageSize cfg \<and> 4 dvd unat (PageSize cfg) \<and>
     unat (NumPhysPages cfg) * unat (PageSize cfg) < 2 ^ 31 \<and>
     MemorySize cfg = NumPhysPages cfg * PageSize cfg"

subsection \<open>Translation entries and exceptions\<close>

record TranslationEntry =
  virtualPage :: word32
  physicalPage :: word32
  valid :: bool
  readOnly :: bool
  use :: bool
  dirty :: bool

text \<open>The members of \<^verbatim>\<open>ExceptionType\<close> that addrspace.cc returns.\<close>

datatype ExceptionType =
  NoException | PageFaultException | BusErrorException | AddressErrorException

text \<open>
  What ends the kernel instead of returning: a failed \<^verbatim>\<open>ASSERT\<close>, and the undefined
  behaviours of C++ that the code can reach (an index outside an array, a division by
  zero, the read of an uninitialised variable).
\<close>

datatype abort = AssertionFailed | OutOfBounds | DivisionByZero | Uninitialised

subsection \<open>The address space, the machine and the executable\<close>

text \<open>The two data members of \<^verbatim>\<open>AddrSpace\<close>; \<^verbatim>\<open>numPages\<close> is an \<^verbatim>\<open>unsigned int\<close>.\<close>

record AddrSpace =
  pageTable :: "TranslationEntry list"
  numPages :: word32

text \<open>
  The state outside the object that addrspace.cc reads and writes: the bytes of
  \<^verbatim>\<open>machine->mainMemory\<close>, the register file written by \<^verbatim>\<open>machine->WriteRegister\<close>, and
  the global \<^verbatim>\<open>int totalPagesCount\<close>.
\<close>

record System =
  mainMemory :: "byte list"
  registers :: "word32 list"
  totalPagesCount :: word32

text \<open>
  Modelled from the spec: noff.h is not among the sources. A segment descriptor is
  \<open>{size: u32, virtualAddr: u32, inFileAddr: u32}\<close>, and the header is a magic number and
  the descriptors of the code, the initialised data and the uninitialised data. The
  field \<^verbatim>\<open>size\<close> is called \<open>size_seg\<close> here.
\<close>

record Segment =
  virtualAddr :: word32
  inFileAddr :: word32
  size_seg :: word32

record NoffHeader =
  noffMagic :: word32
  code :: Segment
  initData :: Segment
  uninitData :: Segment

text \<open>
  Modelled from the spec: the class \<^verbatim>\<open>OpenFile\<close> is not among the sources. An open
  executable is its bytes, together with the ten words that
  \<^verbatim>\<open>ReadAt((char *)&noffH, sizeof(noffH), 0)\<close> leaves in \<^verbatim>\<open>noffH\<close> on this host.
\<close>

record OpenFile =
  header :: NoffHeader
  fileBytes :: "byte list"

subsection \<open>SwapHeader\<close>

definition SwapHeader :: "'a machine_config_scheme \<Rightarrow> NoffHeader \<Rightarrow> NoffHeader" where
  "SwapHeader cfg noffH =
     \<lparr>noffMagic = WordToHost cfg (noffMagic noffH),
      code = \<lparr>virtualAddr = WordToHost cfg (virtualAddr (code noffH)),
              inFileAddr = WordToHost cfg (inFileAddr (code noffH)),
              size_seg = WordToHost cfg (size_seg (code noffH))\<rparr>,
      initData = \<lparr>virtualAddr = WordToHost cfg (virtualAddr (initData noffH)),
                  inFileAddr = WordToHost cfg (inFileAddr (initData noffH)),
                  size_seg = WordToHost cfg (size_seg (initData noffH))\<rparr>,
      uninitData = \<lparr>virtualAddr = WordToHost cfg (virtualAddr (uninitData noffH)),
                    inFileAddr = WordToHost cfg (inFileAddr (uninitData noffH)),
                    size_seg = WordToHost cfg (size_seg (uninitData noffH))\<rparr>\<rparr>"

text \<open>
  The first lines of the constructor: read the header and swap it when the magic number
  matches only after \<^verbatim>\<open>WordToHost\<close>.
\<close>

definition readHeader :: "'a machine_config_scheme \<Rightarrow> OpenFile \<Rightarrow> NoffHeader" where
  "readHeader cfg executable =
     (let noffH = header executable
      in if noffMagic noffH \<noteq> NOFFMAGIC cfg \<and> WordToHost cfg (noffMagic noffH) = NOFFMAGIC cfg
         then SwapHeader cfg noffH else noffH)"

subsection \<open>Helpers from outside addrspace.cc\<close>

text \<open>
  Modelled from the spec: the macro \<^verbatim>\<open>divRoundUp\<close> is not among the sources. The page
  count is the size divided by the page size, rounded up; on \<^verbatim>\<open>unsigned\<close> operands.
\<close>

definition divRoundUp :: "word32 \<Rightarrow> word32 \<Rightarrow> word32" where
  "divRoundUp n s = n div s + (if n mod s > 0 then 1 else 0)"

text \<open>
  \<^verbatim>\<open>bzero(machine->mainMemory, size)\<close> clears the first \<open>size\<close> bytes of the memory; past
  the end of the array it is undefined.
\<close>

definition bzero :: "byte list \<Rightarrow> nat \<Rightarrow> abort + byte list" where
  "bzero mem n = (if n \<le> length mem then Inr (replicate n 0 @ drop n mem) else Inl OutOfBounds)"

text \<open>
  Modelled from the spec: \<^verbatim>\<open>OpenFile::ReadAt\<close> is not among the sources. It copies the
  bytes of the file from \<open>position\<close> on, at most \<open>numBytes\<close> of them, to memory at index
  \<open>into\<close>.
\<close>

definition ReadAt :: "byte list \<Rightarrow> byte list \<Rightarrow> nat \<Rightarrow> word32 \<Rightarrow> word32 \<Rightarrow> abort + byte list" where
  "ReadAt file mem into numBytes position =
     (let chunk = take (unat numBytes) (drop (unat position) file)
      in if into + length chunk \<le> length mem
         then Inr (take into mem @ chunk @ drop (into + length chunk) mem)
         else Inl OutOfBounds)"

text \<open>
  Modelled from the spec: \<^verbatim>\<open>Machine::WriteRegister\<close> is not among the sources. The
  register file is an array of addressable registers.
\<close>

definition WriteRegister :: "word32 \<Rightarrow> word32 \<Rightarrow> word32 list \<Rightarrow> abort + word32 list" where
  "WriteRegister num v regs =
     (if 0 \<le>s num \<and> unat num < length regs then Inr (regs[unat num := v]) else Inl OutOfBounds)"

subsection \<open>AddrSpace::Translate\<close>

text \<open>
  \<^verbatim>\<open>Translate(virtAddr, physAddr, pgTable, pgSize)\<close> is a member function: \<open>this\<close> is the
  object it is called on, whose member \<^verbatim>\<open>pageTable\<close> the body reads and marks, and
  \<open>pgTable\<close> is the parameter of that name. The result is the exception returned, the
  value stored through \<^verbatim>\<open>physAddr\<close> (\<open>None\<close> when nothing is stored) and the object
  afterwards.
\<close>

definition Translate ::
  "'a machine_config_scheme \<Rightarrow> AddrSpace \<Rightarrow> word32 \<Rightarrow> TranslationEntry list \<Rightarrow> word32
     \<Rightarrow> abort + (ExceptionType \<times> word32 option \<times> AddrSpace)" where
  "Translate cfg this virtAddr pgTable pgSize =
     (if virtAddr AND 3 \<noteq> 0 then Inr (AddressErrorException, None, this)
      else if PageSize cfg = 0 then Inl DivisionByZero
      else
        let vpn = virtAddr div PageSize cfg;
            offset = virtAddr mod PageSize cfg
        in if vpn \<ge> pgSize then Inr (AddressErrorException, None, this)
           else if \<not> unat vpn < length (pageTable this) then Inl OutOfBounds
           else if \<not> valid (pageTable this ! unat vpn) then Inr (PageFaultException, None, this)
           else
             let entry = pageTable this ! unat vpn;
                 pageFrame = physicalPage entry
             in if pageFrame \<ge> NumPhysPages cfg then Inr (BusErrorException, None, this)
                else
                  let this' = this\<lparr>pageTable := (pageTable this)[unat vpn := entry\<lparr>use := True\<rparr>]\<rparr>;
                      physAddr = pageFrame * PageSize cfg + offset
                  in if 0 \<le> sint physAddr \<and> sint physAddr + 4 \<le> sint (MemorySize cfg)
                     then Inr (NoException, Some physAddr, this')
                     else Inl AssertionFailed)"

subsection \<open>Setting up the page table\<close>

text \<open>
  \<^verbatim>\<open>new TranslationEntry[numPages]\<close> returns entries of indeterminate content; \<open>unset\<close>
  stands for it. The loop stores every entry before any is read.
\<close>

definition unset :: TranslationEntry where
  "unset = \<lparr>virtualPage = 0, physicalPage = 0, valid = False, readOnly = False,
     use = False, dirty = False\<rparr>"

text \<open>
  The loop \<^verbatim>\<open>for (i = 0; i < numPages; i++)\<close> of both constructors, from index \<open>i\<close> on:
  \<open>n\<close> is \<^verbatim>\<open>numPages\<close>, \<open>c\<close> is \<^verbatim>\<open>totalPagesCount\<close> and \<open>tbl\<close> the array.
\<close>

function fillPageTable :: "word32 \<Rightarrow> word32 \<Rightarrow> word32 \<Rightarrow> TranslationEntry list \<Rightarrow> TranslationEntry list" where
  "fillPageTable i n c tbl =
     (if i < n
      then fillPageTable (i + 1) n c
             (tbl[unat i := \<lparr>virtualPage = i, physicalPage = i + c, valid = True,
                              readOnly = False, use = False, dirty = False\<rparr>])
      else tbl)"
  by pat_completeness auto
termination
proof (relation "measure (\<lambda>(i, n, c, tbl). unat n - unat i)", goal_cases)
  case 1
  show ?case by simp
next
  case (2 i n c tbl)
  then have "unat (i + 1) = Suc (unat i)" by unat_arith
  moreover have "unat i < unat n" using 2 by (simp add: word_less_nat_alt)
  ultimately show ?case by simp
qed

declare fillPageTable.simps [simp del]

subsection \<open>AddrSpace::AddrSpace(OpenFile *executable)\<close>

text \<open>
  Each of the two blocks \<^verbatim>\<open>if (noffH.X.size > 0) { Translate(...); ReadAt(...); }\<close>, for
  the segment \<open>seg\<close>. The state is the object, the local \<^verbatim>\<open>int physicalAddress\<close> (\<open>None\<close>
  while it is uninitialised) and the memory. The exception that \<^verbatim>\<open>Translate\<close> returns is
  dropped, as the source drops it.
\<close>

definition loadSegment ::
  "'a machine_config_scheme \<Rightarrow> OpenFile \<Rightarrow> Segment \<Rightarrow> AddrSpace \<times> word32 option \<times> byte list
     \<Rightarrow> abort + (AddrSpace \<times> word32 option \<times> byte list)" where
  "loadSegment cfg executable seg st =
     (case st of (this, physicalAddress, mem) \<Rightarrow>
        if size_seg seg > 0
        then (case Translate cfg this (virtualAddr seg) (pageTable this) (numPages this) of
                Inl a \<Rightarrow> Inl a
              | Inr (exc, stored, this') \<Rightarrow>
                  (case (case stored of Some a \<Rightarrow> Some a | None \<Rightarrow> physicalAddress) of
                     None \<Rightarrow> Inl Uninitialised
                   | Some a \<Rightarrow>
                       (case ReadAt (fileBytes executable) mem (unat a) (size_seg seg) (inFileAddr seg) of
                          Inl e \<Rightarrow> Inl e
                        | Inr mem' \<Rightarrow> Inr (this', Some a, mem'))))
        else Inr st)"

definition AddrSpace_from_file ::
  "'a machine_config_scheme \<Rightarrow> OpenFile \<Rightarrow> System \<Rightarrow> abort + (AddrSpace \<times> System)" where
  "AddrSpace_from_file cfg executable sys =
     (let noffH = readHeader cfg executable
      in if noffMagic noffH \<noteq> NOFFMAGIC cfg then Inl AssertionFailed
         else
           let size = size_seg (code noffH) + size_seg (initData noffH)
                        + size_seg (uninitData noffH) + UserStackSize cfg
           in if PageSize cfg = 0 then Inl DivisionByZero
              else
                let n = divRoundUp size (PageSize cfg)
                in if \<not> n \<le> NumPhysPages cfg then Inl AssertionFailed
                   else
                     let tbl = fillPageTable 0 n (totalPagesCount sys) (replicate (unat n) unset);
                         c = totalPagesCount sys + n
                     in if \<not> c \<le>s NumPhysPages cfg then Inl AssertionFailed
                        else
                          let size = c * PageSize cfg
                          in case bzero (mainMemory sys) (unat size) of
                               Inl a \<Rightarrow> Inl a
                             | Inr mem \<Rightarrow>
                                 (case loadSegment cfg executable (code noffH)
                                         (\<lparr>pageTable = tbl, numPages = n\<rparr>, None, mem) of
                                    Inl a \<Rightarrow> Inl a
                                  | Inr st \<Rightarrow>
                                      (case loadSegment cfg executable (initData noffH) st of
                                         Inl a \<Rightarrow> Inl a
                                       | Inr (this, physicalAddress, mem') \<Rightarrow>
                                           Inr (this, sys\<lparr>mainMemory := mem', totalPagesCount := c\<rparr>))))"

subsection \<open>AddrSpace::AddrSpace(unsigned int numParentPages, unsigned int parentStartPhysPage)\<close>

text \<open>
  The loop \<^verbatim>\<open>for(; i<parentPhysEnd; ++i, ++k) mainMemory[k] = mainMemory[i]\<close>, with \<open>e\<close>
  for \<^verbatim>\<open>parentPhysEnd\<close>; an index outside the memory is undefined.
\<close>

function copyParent :: "word32 \<Rightarrow> word32 \<Rightarrow> word32 \<Rightarrow> byte list \<Rightarrow> abort + byte list" where
  "copyParent i e k mem =
     (if i < e
      then if unat k < length mem \<and> unat i < length mem
           then copyParent (i + 1) e (k + 1) (mem[unat k := mem ! unat i])
           else Inl OutOfBounds
      else Inr mem)"
  by pat_completeness auto
termination
proof (relation "measure (\<lambda>(i, e, k, mem). unat e - unat i)", goal_cases)
  case 1
  show ?case by simp
next
  case (2 i e k mem)
  then have "unat (i + 1) = Suc (unat i)" by unat_arith
  moreover have "unat i < unat e" using 2 by (simp add: word_less_nat_alt)
  ultimately show ?case by simp
qed

declare copyParent.simps [simp del]

definition AddrSpace_from_parent ::
  "'a machine_config_scheme \<Rightarrow> word32 \<Rightarrow> word32 \<Rightarrow> System \<Rightarrow> abort + (AddrSpace \<times> System)" where
  "AddrSpace_from_parent cfg numParentPages parentStartPhysPage sys =
     (let n = numParentPages;
          size = n * PageSize cfg;
          k = totalPagesCount sys * PageSize cfg
      in if \<not> n \<le> NumPhysPages cfg then Inl AssertionFailed
         else
           let tbl = fillPageTable 0 n (totalPagesCount sys) (replicate (unat n) unset);
               c = totalPagesCount sys + n
           in if \<not> c \<le>s NumPhysPages cfg then Inl AssertionFailed
              else
                let parentPhysEnd = parentStartPhysPage + n * PageSize cfg;
                    i = parentStartPhysPage * PageSize cfg
                in case copyParent i parentPhysEnd k (mainMemory sys) of
                     Inl a \<Rightarrow> Inl a
                   | Inr mem \<Rightarrow>
                       Inr (\<lparr>pageTable = tbl, numPages = n\<rparr>,
                            sys\<lparr>mainMemory := mem, totalPagesCount := c\<rparr>))"

subsection \<open>AddrSpace::InitRegisters and the accessors\<close>

text \<open>The loop \<^verbatim>\<open>for (i = 0; i < NumTotalRegs; i++) machine->WriteRegister(i, 0)\<close>; \<open>i\<close> is an \<^verbatim>\<open>int\<close>.\<close>

function zeroRegisters :: "word32 \<Rightarrow> word32 \<Rightarrow> word32 list \<Rightarrow> abort + word32 list" where
  "zeroRegisters i n regs =
     (if i <s n
      then (case WriteRegister i 0 regs of
              Inl a \<Rightarrow> Inl a
            | Inr regs' \<Rightarrow> zeroRegisters (i + 1) n regs')
      else Inr regs)"
  by pat_completeness auto
termination
proof (relation "measure (\<lambda>(i, n, regs). nat (sint n - sint i))", goal_cases)
  case 1
  show ?case by simp
next
  case (2 i n regs regs')
  then have lt: "sint i < sint n" by (simp add: word_sless_alt)
  have "sint n < 2 ^ 31" using sint_lt [of n] by simp
  moreover have "- (2 ^ 31) \<le> sint i" using sint_ge [of i] by simp
  ultimately have "signed_take_bit 31 (sint i + 1) = sint i + 1"
    using lt by (intro signed_take_bit_int_eq_self) simp_all
  moreover have "sint (i + 1) = signed_take_bit 31 (sint i + 1)"
    by (simp add: sint_word_ariths)
  ultimately have "sint (i + 1) = sint i + 1" by simp
  then show ?case using lt by simp
qed

declare zeroRegisters.simps [simp del]

definition InitRegisters ::
  "'a machine_config_scheme \<Rightarrow> AddrSpace \<Rightarrow> System \<Rightarrow> abort + System" where
  "InitRegisters cfg this sys =
     (case zeroRegisters 0 (NumTotalRegs cfg) (registers sys) of
        Inl a \<Rightarrow> Inl a
      | Inr r0 \<Rightarrow>
          (case WriteRegister (PCReg cfg) 0 r0 of
             Inl a \<Rightarrow> Inl a
           | Inr r1 \<Rightarrow>
               (case WriteRegister (NextPCReg cfg) 4 r1 of
                  Inl a \<Rightarrow> Inl a
                | Inr r2 \<Rightarrow>
                    (case WriteRegister (StackReg cfg) (numPages this * PageSize cfg - 16) r2 of
                       Inl a \<Rightarrow> Inl a
                     | Inr r3 \<Rightarrow> Inr (sys\<lparr>registers := r3\<rparr>)))))"

definition getNumPages :: "AddrSpace \<Rightarrow> word32" where
  "getNumPages this = numPages this"

definition getStartPhysPage :: "AddrSpace \<Rightarrow> abort + word32" where
  "getStartPhysPage this =
     (if 0 < length (pageTable this) then Inr (physicalPage (pageTable this ! 0)) else Inl OutOfBounds)"

subsection \<open>The register file that InitRegisters expects\<close>

text \<open>
  The register file has \<^verbatim>\<open>NumTotalRegs\<close> registers, and the program counter, the next
  program counter and the stack pointer are three different registers among them.
\<close>

definition regs_ok :: "'a machine_config_scheme \<Rightarrow> System \<Rightarrow> bool" where
  "regs_ok cfg sys \<longleftrightarrow>
     0 \<le>s NumTotalRegs cfg \<and> length (registers sys) = unat (NumTotalRegs cfg) \<and>
     0 \<le>s PCReg cfg \<and> PCReg cfg <s NumTotalRegs cfg \<and>
     0 \<le>s NextPCReg cfg \<and> NextPCReg cfg <s NumTotalRegs cfg \<and>
     0 \<le>s StackReg cfg \<and> StackReg cfg <s NumTotalRegs cfg \<and>
     distinct [PCReg cfg, NextPCReg cfg, StackReg cfg]"

subsection \<open>Concrete values for the scenarios\<close>

text \<open>
  The machine of the scenarios in the specification: pages of 128 bytes and a stack of
  1024 bytes; the other constants are those of the stock simulator (32 frames, 40
  registers), on a host where \<^verbatim>\<open>WordToHost\<close> leaves a word as it is.
\<close>

definition stock_config :: machine_config where
  "stock_config = \<lparr>PageSize = 128, NumPhysPages = 32, MemorySize = 4096, UserStackSize = 1024,
     NumTotalRegs = 40, PCReg = 34, NextPCReg = 35, StackReg = 29, NOFFMAGIC = 0xbadfad,
     WordToHost = (\<lambda>w. w)\<rparr>"

text \<open>A page table entry for virtual page \<open>v\<close> on frame \<open>p\<close>, not yet used.\<close>

definition entry_at :: "word32 \<Rightarrow> word32 \<Rightarrow> bool \<Rightarrow> TranslationEntry" where
  "entry_at v p ok = \<lparr>virtualPage = v, physicalPage = p, valid = ok, readOnly = False,
     use = False, dirty = False\<rparr>"

text \<open>The machine at kernel start: no frame committed, memory and registers cleared.\<close>

definition boot_system :: System where
  "boot_system = \<lparr>mainMemory = replicate 4096 0, registers = replicate 40 0, totalPagesCount = 0\<rparr>"

text \<open>
  The image of the scenario: a code segment of 128 bytes at file offset 40 and virtual
  address 0, no data; the bytes of the code are all 42.
\<close>

definition demo_image :: OpenFile where
  "demo_image = \<lparr>header = \<lparr>noffMagic = 0xbadfad,
        code = \<lparr>virtualAddr = 0, inFileAddr = 40, size_seg = 128\<rparr>,
        initData = \<lparr>virtualAddr = 128, inFileAddr = 168, size_seg = 0\<rparr>,
        uninitData = \<lparr>virtualAddr = 128, inFileAddr = 0, size_seg = 0\<rparr>\<rparr>,
      fileBytes = replicate 40 0 @ replicate 128 42\<rparr>"

text \<open>
  The machine after an earlier address space has committed frames 0 to 8; every byte
  of the memory is 7.
\<close>

definition busy_system :: System where
  "busy_system = \<lparr>mainMemory = replicate 4096 7, registers = replicate 40 0, totalPagesCount = 9\<rparr>"

text \<open>
  The machine with two address spaces of 9 pages each: frames 0 to 8 hold the byte 0,
  frames 9 to 17, those of the second one, hold the byte 7, and the free frames hold 0.
\<close>

definition forking_system :: System where
  "forking_system = \<lparr>mainMemory = replicate 1152 0 @ replicate 1152 7 @ replicate 1792 0,
     registers = replicate 40 0, totalPagesCount = 18\<rparr>"

section \<open>Properties\<close>

subsection \<open>Arithmetic of addresses\<close>

lemma sint_small: "unat (w :: word32) < 2 ^ 31 \<Longrightarrow> sint w = int (unat w)"
proof -
  assume a: "unat w < 2 ^ 31"
  have "int (unat w) < 2 ^ 31" using a by (simp only: of_nat_less_numeral_power_cancel_iff)
  then have "uint w < 2 ^ 31" by (simp only: uint_nat)
  moreover have "- (2 ^ 31) \<le> uint w" by (rule order_trans [of _ 0]) simp_all
  ultimately have e: "signed_take_bit 31 (uint w) = uint w"
    by (intro signed_take_bit_int_eq_self) 
  have s: "sint w = signed_take_bit 31 (uint w)" by (simp add: sint_uint)
  from s e have "sint w = uint w" by (rule trans)
  then show ?thesis by (simp only: uint_nat)
qed


lemma aligned_dvd: "(va :: word32) AND 3 = 0 \<Longrightarrow> 4 dvd unat va"
  using and_mask_dvd_nat[of 2 va] by (simp add: mask_eq_exp_minus_1)

lemma offset_le:
  assumes "(4::nat) dvd p" "4 dvd v" "0 < p"
  shows "v mod p + 4 \<le> p"
proof -
  have "4 dvd v mod p" using assms by (simp add: dvd_mod)
  moreover have "v mod p < p" using assms by simp
  ultimately show ?thesis using assms(1) by (auto elim!: dvdE)
qed

lemma frame_addr_bound:
  assumes "(f::nat) < n" "off + 4 \<le> p"
  shows "f * p + off + 4 \<le> n * p"
proof -
  have "Suc f \<le> n" using assms by simp
  then have "Suc f * p \<le> n * p" by (rule mult_le_mono1)
  then show ?thesis using assms by simp
qed

lemma machine_ok_PageSize: "machine_ok cfg \<Longrightarrow> 0 < unat (PageSize cfg)"
  by (auto simp: machine_ok_def word_sless_alt unat_gt_0)

lemma phys_addr_nat:
  assumes ok: "machine_ok cfg" and al: "va AND 3 = 0" and pf: "pf < NumPhysPages cfg"
  shows "unat (pf * PageSize cfg + va mod PageSize cfg)
           = unat pf * unat (PageSize cfg) + unat va mod unat (PageSize cfg)"
    and "unat pf * unat (PageSize cfg) + unat va mod unat (PageSize cfg) + 4
           \<le> unat (NumPhysPages cfg) * unat (PageSize cfg)"
proof -
  let ?p = "unat (PageSize cfg)" and ?n = "unat (NumPhysPages cfg)"
  have p: "0 < ?p" "4 dvd ?p" and np: "?n * ?p < 2 ^ 31"
    using ok machine_ok_PageSize[OF ok] by (simp_all add: machine_ok_def)
  have off: "unat va mod ?p + 4 \<le> ?p"
    using p aligned_dvd[OF al] by (intro offset_le)
  have f: "unat pf < ?n" using pf by (simp add: word_less_nat_alt)
  show le: "unat pf * ?p + unat va mod ?p + 4 \<le> ?n * ?p"
    using f off by (rule frame_addr_bound)
  have m: "unat pf * ?p < 2 ^ 32" using le np by simp
  then have um: "unat (pf * PageSize cfg) = unat pf * ?p"
    using unat_mult_lem[of pf "PageSize cfg"] by simp
  have "unat (pf * PageSize cfg) + unat (va mod PageSize cfg) < 2 ^ 32"
    using le np by (simp add: um unat_mod)
  then have "unat (pf * PageSize cfg + va mod PageSize cfg)
      = unat (pf * PageSize cfg) + unat (va mod PageSize cfg)"
    using unat_add_lem[of "pf * PageSize cfg" "va mod PageSize cfg"] by simp
  then show "unat (pf * PageSize cfg + va mod PageSize cfg) = unat pf * ?p + unat va mod ?p"
    by (simp add: um unat_mod)
qed

lemma phys_addr_assert:
  assumes ok: "machine_ok cfg" and al: "va AND 3 = 0" and pf: "pf < NumPhysPages cfg"
  shows "0 \<le> sint (pf * PageSize cfg + va mod PageSize cfg) \<and>
         sint (pf * PageSize cfg + va mod PageSize cfg) + 4 \<le> sint (MemorySize cfg)"
proof -
  let ?p = "unat (PageSize cfg)" and ?n = "unat (NumPhysPages cfg)"
  let ?a = "pf * PageSize cfg + va mod PageSize cfg"
  note n = phys_addr_nat[OF ok al pf]
  have np: "?n * ?p < 2 ^ 31" and ms: "MemorySize cfg = NumPhysPages cfg * PageSize cfg"
    using ok by (simp_all add: machine_ok_def)
  have "unat (NumPhysPages cfg * PageSize cfg) = ?n * ?p"
    using unat_mult_lem[of "NumPhysPages cfg" "PageSize cfg"] np by simp
  then have sm: "sint (MemorySize cfg) = int (?n * ?p)"
    using np by (simp add: ms sint_small)
  have "unat ?a < 2 ^ 31" using n np by simp
  then have sa: "sint ?a = int (unat ?a)" by (rule sint_small)
  have "int (unat ?a + 4) \<le> int (?n * ?p)" using n by (simp only: of_nat_le_iff)
  then show ?thesis by (simp add: sa sm)
qed



subsection \<open>Translate\<close>

lemma stock_config_ok: "machine_ok stock_config"
  by (simp add: machine_ok_def stock_config_def word_sless_alt)

lemma Translate_misaligned:
  "virtAddr AND 3 \<noteq> 0 \<Longrightarrow>
   Translate cfg this virtAddr pgTable pgSize = Inr (AddressErrorException, None, this)"
  by (simp add: Translate_def)

lemma Translate_range:
  "virtAddr AND 3 = 0 \<Longrightarrow> PageSize cfg \<noteq> 0 \<Longrightarrow> pgSize \<le> virtAddr div PageSize cfg \<Longrightarrow>
   Translate cfg this virtAddr pgTable pgSize = Inr (AddressErrorException, None, this)"
  by (simp add: Translate_def)

lemma Translate_invalid:
  "virtAddr AND 3 = 0 \<Longrightarrow> PageSize cfg \<noteq> 0 \<Longrightarrow> \<not> pgSize \<le> virtAddr div PageSize cfg \<Longrightarrow>
   unat (virtAddr div PageSize cfg) < length (pageTable this) \<Longrightarrow>
   \<not> valid (pageTable this ! unat (virtAddr div PageSize cfg)) \<Longrightarrow>
   Translate cfg this virtAddr pgTable pgSize = Inr (PageFaultException, None, this)"
  by (simp add: Translate_def)

lemma Translate_bus:
  "virtAddr AND 3 = 0 \<Longrightarrow> PageSize cfg \<noteq> 0 \<Longrightarrow> \<not> pgSize \<le> virtAddr div PageSize cfg \<Longrightarrow>
   unat (virtAddr div PageSize cfg) < length (pageTable this) \<Longrightarrow>
   valid (pageTable this ! unat (virtAddr div PageSize cfg)) \<Longrightarrow>
   NumPhysPages cfg \<le> physicalPage (pageTable this ! unat (virtAddr div PageSize cfg)) \<Longrightarrow>
   Translate cfg this virtAddr pgTable pgSize = Inr (BusErrorException, None, this)"
  by (simp add: Translate_def)

lemma Translate_mapped:
  assumes al: "virtAddr AND 3 = 0" and ok: "machine_ok cfg"
    and r: "\<not> pgSize \<le> virtAddr div PageSize cfg"
    and l: "unat (virtAddr div PageSize cfg) < length (pageTable this)"
    and v: "valid (pageTable this ! unat (virtAddr div PageSize cfg))"
    and f: "\<not> NumPhysPages cfg \<le> physicalPage (pageTable this ! unat (virtAddr div PageSize cfg))"
  shows "Translate cfg this virtAddr pgTable pgSize =
     Inr (NoException,
       Some (physicalPage (pageTable this ! unat (virtAddr div PageSize cfg)) * PageSize cfg
               + virtAddr mod PageSize cfg),
       this\<lparr>pageTable := (pageTable this)[unat (virtAddr div PageSize cfg) :=
         (pageTable this ! unat (virtAddr div PageSize cfg))\<lparr>use := True\<rparr>]\<rparr>)"
proof -
  have ps: "PageSize cfg \<noteq> 0" using machine_ok_PageSize[OF ok] by (auto simp: unat_gt_0)
  from f have pf: "physicalPage (pageTable this ! unat (virtAddr div PageSize cfg)) < NumPhysPages cfg"
    by simp
  note a = phys_addr_assert[OF ok al pf]
  show ?thesis using al ps r l v f a by (simp add: Translate_def Let_def)
qed

lemma Translate_ignores_pgTable:
  "Translate cfg this virtAddr pgTable pgSize = Translate cfg this virtAddr pgTable' pgSize"
  by (simp add: Translate_def)

text \<open>
  C3. The claim: the outcome of \<open>Translate\<close> and the address it stores are determined by
  \<open>virtAddr\<close>, \<open>pgSize\<close> and the entries of the argument \<open>pgTable\<close>, and do not depend on
  the page table member of the object. The code reads \<^verbatim>\<open>pageTable[vpn]\<close>, the member,
  and never reads \<open>pgTable\<close>: with the same three arguments, an object whose own entry
  is valid gets an address and one whose own entry is invalid gets a page fault.
\<close>

theorem Translate_reads_member_table:
  "Translate stock_config \<lparr>pageTable = [entry_at 0 0 True], numPages = 1\<rparr> 0 [entry_at 0 0 False] 1
     = Inr (NoException, Some 0, \<lparr>pageTable = [(entry_at 0 0 True)\<lparr>use := True\<rparr>], numPages = 1\<rparr>) \<and>
   Translate stock_config \<lparr>pageTable = [entry_at 0 0 False], numPages = 1\<rparr> 0 [entry_at 0 0 False] 1
     = Inr (PageFaultException, None, \<lparr>pageTable = [entry_at 0 0 False], numPages = 1\<rparr>)"
  by (simp add: Translate_def stock_config_def entry_at_def)

text \<open>
  C4. \<open>Translate\<close> tells the faults apart in a fixed order, the first match winning:
  low two bits of the address not zero, \<open>AddressError\<close>; else virtual page number
  \<open>virtAddr / PageSize\<close> at or beyond the table size, \<open>AddressError\<close>; else entry not
  valid, \<open>PageFault\<close>; else physical page at or beyond the number of frames, \<open>BusError\<close>;
  else the use bit of the entry is set, the address
  \<open>physicalPage * PageSize + virtAddr mod PageSize\<close> is stored and the outcome is
  \<open>NoException\<close>. The address is read as \<^verbatim>\<open>unsigned\<close>, the arithmetic on the right is that
  of the natural numbers, and the entry is the one the code consults, at index \<open>vpn\<close>
  of the table of the object, which has at least \<open>pgSize\<close> entries.
\<close>

theorem Translate_fault_order:
  assumes ok: "machine_ok cfg" and len: "unat pgSize \<le> length (pageTable this)"
  shows "Translate cfg this virtAddr pgTable pgSize =
    (let vpn = unat virtAddr div unat (PageSize cfg);
         entry = pageTable this ! vpn
     in if virtAddr AND 3 \<noteq> 0 then Inr (AddressErrorException, None, this)
        else if vpn \<ge> unat pgSize then Inr (AddressErrorException, None, this)
        else if \<not> valid entry then Inr (PageFaultException, None, this)
        else if unat (physicalPage entry) \<ge> unat (NumPhysPages cfg)
          then Inr (BusErrorException, None, this)
        else Inr (NoException,
               Some (word_of_nat (unat (physicalPage entry) * unat (PageSize cfg)
                       + unat virtAddr mod unat (PageSize cfg))),
               this\<lparr>pageTable := (pageTable this)[vpn := entry\<lparr>use := True\<rparr>]\<rparr>))"
proof -
  let ?vpn = "virtAddr div PageSize cfg"
  let ?e = "pageTable this ! unat ?vpn"
  have ps: "PageSize cfg \<noteq> 0" using machine_ok_PageSize[OF ok] by (auto simp: unat_gt_0)
  have vpn: "unat virtAddr div unat (PageSize cfg) = unat ?vpn" by (simp add: unat_div)
  have rng: "unat pgSize \<le> unat ?vpn \<longleftrightarrow> pgSize \<le> ?vpn" by (simp add: word_le_nat_alt)
  have bus: "unat (NumPhysPages cfg) \<le> unat (physicalPage ?e) \<longleftrightarrow> NumPhysPages cfg \<le> physicalPage ?e"
    by (simp add: word_le_nat_alt)
  show ?thesis
  proof (cases "virtAddr AND 3 = 0")
    case False
    then show ?thesis by (simp add: Translate_misaligned Let_def)
  next
    case al: True
    show ?thesis
    proof (cases "pgSize \<le> ?vpn")
      case True
      then show ?thesis using al by (simp add: Translate_range[OF al ps] Let_def vpn rng)
    next
      case inb: False
      then have lt: "unat ?vpn < length (pageTable this)" using len by (simp add: word_le_nat_alt)
      show ?thesis
      proof (cases "valid ?e")
        case False
        then show ?thesis using al inb
          by (simp add: Translate_invalid[OF al ps inb lt] Let_def vpn rng)
      next
        case v: True
        show ?thesis
        proof (cases "NumPhysPages cfg \<le> physicalPage ?e")
          case True
          then show ?thesis using al inb v
            by (simp add: Translate_bus[OF al ps inb lt v] Let_def vpn rng bus)
        next
          case f: False
          then have pf: "physicalPage ?e < NumPhysPages cfg" by simp
          have "word_of_nat (unat (physicalPage ?e * PageSize cfg + virtAddr mod PageSize cfg))
                  = physicalPage ?e * PageSize cfg + virtAddr mod PageSize cfg"
            by simp
          then have w: "word_of_nat (unat (physicalPage ?e) * unat (PageSize cfg)
                            + unat virtAddr mod unat (PageSize cfg))
                = physicalPage ?e * PageSize cfg + virtAddr mod PageSize cfg"
            by (simp only: phys_addr_nat(1)[OF ok al pf])
          show ?thesis using al inb v f w
            by (simp add: Translate_mapped[OF al ok inb lt v f] Let_def vpn rng bus)
        qed
      qed
    qed
  qed
qed

theorem Translate_fault_order_witness:
  "machine_ok stock_config \<and>
   unat (1 :: word32) \<le> length (pageTable \<lparr>pageTable = [entry_at 0 9 True], numPages = 1\<rparr>) \<and>
   Translate stock_config \<lparr>pageTable = [entry_at 0 9 True], numPages = 1\<rparr> 4 [entry_at 0 9 True] 1
     = Inr (NoException, Some 1156, \<lparr>pageTable = [(entry_at 0 9 True)\<lparr>use := True\<rparr>], numPages = 1\<rparr>)"
proof -
  let ?obj = "\<lparr>pageTable = [entry_at 0 9 True], numPages = 1\<rparr>"
  have len: "unat (1 :: word32) \<le> length (pageTable ?obj)" by simp
  have "Translate stock_config ?obj 4 [entry_at 0 9 True] 1
     = Inr (NoException, Some 1156, \<lparr>pageTable = [(entry_at 0 9 True)\<lparr>use := True\<rparr>], numPages = 1\<rparr>)"
    using Translate_fault_order [OF stock_config_ok len, of 4 "[entry_at 0 9 True]"]
    by (simp add: stock_config_def entry_at_def)
  with stock_config_ok len show ?thesis by blast
qed

text \<open>
  C7. A call of \<open>Translate\<close> that returns a fault leaves the page table as it was. On
  any return the table keeps its length, every entry other than the one consulted is
  unchanged, and an entry that differs from before is the old one with the use bit set,
  which happens only with \<open>NoException\<close>; the rest of the object is unchanged.
\<close>

theorem Translate_frame:
  assumes "Translate cfg this virtAddr pgTable pgSize = Inr (exc, physAddr, this')"
  shows "(exc \<noteq> NoException \<longrightarrow> this' = this) \<and>
         numPages this' = numPages this \<and>
         length (pageTable this') = length (pageTable this) \<and>
         (\<forall>j < length (pageTable this). j \<noteq> unat (virtAddr div PageSize cfg) \<longrightarrow>
            pageTable this' ! j = pageTable this ! j) \<and>
         (\<forall>j < length (pageTable this). pageTable this' ! j = pageTable this ! j \<or>
            exc = NoException \<and> pageTable this' ! j = (pageTable this ! j)\<lparr>use := True\<rparr>)"
  using assms by (auto simp: Translate_def Let_def nth_list_update split: if_splits)

theorem Translate_frame_witness:
  "Translate stock_config \<lparr>pageTable = [entry_at 0 9 False, entry_at 1 10 True], numPages = 2\<rparr> 4
       [entry_at 0 9 False, entry_at 1 10 True] 2
      = Inr (PageFaultException, None,
             \<lparr>pageTable = [entry_at 0 9 False, entry_at 1 10 True], numPages = 2\<rparr>) \<and>
   Translate stock_config \<lparr>pageTable = [entry_at 0 9 False, entry_at 1 10 True], numPages = 2\<rparr> 128
       [entry_at 0 9 False, entry_at 1 10 True] 2
      = Inr (NoException, Some 1280,
             \<lparr>pageTable = [entry_at 0 9 False, (entry_at 1 10 True)\<lparr>use := True\<rparr>], numPages = 2\<rparr>) \<and>
   pageTable \<lparr>pageTable = [entry_at 0 9 False, (entry_at 1 10 True)\<lparr>use := True\<rparr>], numPages = 2\<rparr> ! 0
      = pageTable \<lparr>pageTable = [entry_at 0 9 False, entry_at 1 10 True], numPages = 2\<rparr> ! 0"
proof -
  let ?obj = "\<lparr>pageTable = [entry_at 0 9 False, entry_at 1 10 True], numPages = 2\<rparr>"
  let ?obj' = "\<lparr>pageTable = [entry_at 0 9 False, (entry_at 1 10 True)\<lparr>use := True\<rparr>], numPages = 2\<rparr>"
  have fault: "Translate stock_config ?obj 4 [entry_at 0 9 False, entry_at 1 10 True] 2
      = Inr (PageFaultException, None, ?obj)"
    by (simp add: Translate_def stock_config_def entry_at_def)
  have hit: "Translate stock_config ?obj 128 [entry_at 0 9 False, entry_at 1 10 True] 2
      = Inr (NoException, Some 1280, ?obj')"
    by (simp add: Translate_def stock_config_def entry_at_def word_le_nat_alt)
  have "pageTable ?obj' ! 0 = pageTable ?obj ! 0"
    using Translate_frame [OF hit] by (simp add: stock_config_def)
  with fault hit show ?thesis by blast
qed

text \<open>
  C8. Calling \<open>Translate\<close> a second time, on the object as the first call left it,
  returns the same outcome and the same physical address: the use bit set by the first
  call does not change the result.
\<close>

theorem Translate_twice:
  assumes "Translate cfg this virtAddr pgTable pgSize = Inr (exc, physAddr, this')"
  shows "Translate cfg this' virtAddr pgTable pgSize = Inr (exc, physAddr, this')"
  using assms by (auto simp: Translate_def Let_def split: if_splits)

theorem Translate_twice_witness:
  "Translate stock_config \<lparr>pageTable = [entry_at 0 9 True], numPages = 1\<rparr> 4 [entry_at 0 9 True] 1
     = Inr (NoException, Some 1156, \<lparr>pageTable = [(entry_at 0 9 True)\<lparr>use := True\<rparr>], numPages = 1\<rparr>) \<and>
   Translate stock_config \<lparr>pageTable = [(entry_at 0 9 True)\<lparr>use := True\<rparr>], numPages = 1\<rparr> 4
       [entry_at 0 9 True] 1
     = Inr (NoException, Some 1156, \<lparr>pageTable = [(entry_at 0 9 True)\<lparr>use := True\<rparr>], numPages = 1\<rparr>)"
proof -
  have first: "Translate stock_config \<lparr>pageTable = [entry_at 0 9 True], numPages = 1\<rparr> 4 [entry_at 0 9 True] 1
     = Inr (NoException, Some 1156, \<lparr>pageTable = [(entry_at 0 9 True)\<lparr>use := True\<rparr>], numPages = 1\<rparr>)"
    by (simp add: Translate_def stock_config_def entry_at_def)
  from first Translate_twice [OF first] show ?thesis by (rule conjI)
qed

text \<open>
  C10. When the page size is a positive multiple of 4 and the memory size is the number
  of frames times the page size, the assertion on the address in \<open>Translate\<close> never
  fails, and an address returned with \<open>NoException\<close> satisfies \<open>0 \<le> physAddr\<close> and
  \<open>physAddr + 4 \<le> MemorySize\<close>, as an \<^verbatim>\<open>int\<close> and as a natural number.
\<close>

theorem Translate_assert_holds:
  assumes ok: "machine_ok cfg"
  shows "Translate cfg this virtAddr pgTable pgSize \<noteq> Inl AssertionFailed \<and>
         (\<forall>physAddr this'.
            Translate cfg this virtAddr pgTable pgSize = Inr (NoException, physAddr, this') \<longrightarrow>
            (\<exists>a. physAddr = Some a \<and> 0 \<le> sint a \<and> sint a + 4 \<le> sint (MemorySize cfg) \<and>
                 unat a + 4 \<le> unat (NumPhysPages cfg) * unat (PageSize cfg)))"
proof -
  let ?vpn = "virtAddr div PageSize cfg"
  let ?e = "pageTable this ! unat ?vpn"
  let ?a = "physicalPage ?e * PageSize cfg + virtAddr mod PageSize cfg"
  have a: "0 \<le> sint ?a \<and> sint ?a + 4 \<le> sint (MemorySize cfg) \<and>
           unat ?a + 4 \<le> unat (NumPhysPages cfg) * unat (PageSize cfg)"
    if "virtAddr AND 3 = 0" "physicalPage ?e < NumPhysPages cfg"
    using phys_addr_assert[OF ok that] phys_addr_nat[OF ok that] by simp
  show ?thesis using a
    by (auto simp: Translate_def Let_def split: if_splits)
qed

theorem Translate_assert_holds_witness:
  "machine_ok stock_config \<and>
   Translate stock_config \<lparr>pageTable = [entry_at 0 31 True], numPages = 1\<rparr> 124 [entry_at 0 31 True] 1
     = Inr (NoException, Some 4092, \<lparr>pageTable = [(entry_at 0 31 True)\<lparr>use := True\<rparr>], numPages = 1\<rparr>) \<and>
   Translate stock_config \<lparr>pageTable = [entry_at 0 31 True], numPages = 1\<rparr> 124 [entry_at 0 31 True] 1
     \<noteq> Inl AssertionFailed"
proof -
  have "Translate stock_config \<lparr>pageTable = [entry_at 0 31 True], numPages = 1\<rparr> 124 [entry_at 0 31 True] 1
     = Inr (NoException, Some 4092, \<lparr>pageTable = [(entry_at 0 31 True)\<lparr>use := True\<rparr>], numPages = 1\<rparr>)"
    by (simp add: Translate_def stock_config_def entry_at_def)
  with stock_config_ok Translate_assert_holds [OF stock_config_ok] show ?thesis by blast
qed

subsection \<open>InitRegisters\<close>

lemma sint_nonneg_small: "0 \<le> sint (w :: word32) \<Longrightarrow> unat w < 2 ^ 31"
proof (rule ccontr)
  assume nn: "0 \<le> sint w" and big: "\<not> unat w < 2 ^ 31"
  from big have "(2 :: nat) ^ 31 \<le> unat w" by simp
  then have "(2 :: int) ^ 31 \<le> int (unat w)"
    by (simp only: numeral_power_le_of_nat_cancel_iff)
  then have lo: "2 ^ 31 \<le> uint w" by (simp only: uint_nat)
  have hi: "uint w < 2 ^ 32" using uint_lt2p [of w] by simp
  have "sint (word_of_int (uint w) :: word32) = (uint w + 2 ^ 31) mod 2 ^ 32 - 2 ^ 31"
    by (simp only: int_word_sint) simp
  then have s: "sint w = (uint w + 2 ^ 31) mod 2 ^ 32 - 2 ^ 31" by simp
  have "(uint w + 2 ^ 31) mod 2 ^ 32 = (uint w + 2 ^ 31 - 2 ^ 32) mod 2 ^ 32"
    using lo by (intro mod_pos_geq) simp_all
  also have "\<dots> = uint w + 2 ^ 31 - 2 ^ 32"
    using lo hi by (intro mod_pos_pos_trivial) simp_all
  finally have "sint w = uint w - 2 ^ 32" using s by simp
  with hi nn show False by simp
qed

lemma sint_nonneg_unat:
  assumes "0 \<le>s (w :: word32)"
  shows "unat w < 2 ^ 31" and "sint w = int (unat w)"
proof -
  from assms have "0 \<le> sint w" by (simp add: word_sle_eq)
  then show "unat w < 2 ^ 31" by (rule sint_nonneg_small)
  then show "sint w = int (unat w)" by (rule sint_small)
qed

lemma small_nonneg:
  assumes "unat (w :: word32) < 2 ^ 31"
  shows "0 \<le>s w"
proof -
  have "sint w = int (unat w)" using assms by (rule sint_small)
  then have "0 \<le> sint w" by (simp only: of_nat_0_le_iff)
  then show ?thesis by (simp only: word_sle_eq sint_0)
qed

lemma sless_unat:
  assumes i: "0 \<le>s (i :: word32)" and lt: "i <s n"
  shows "unat i < unat n" and "0 \<le>s n"
proof -
  note si = sint_nonneg_unat [OF i]
  have "0 \<le> sint i" "sint i < sint n" using i lt by (simp_all add: word_sle_eq word_sless_alt)
  then have "0 \<le> sint n" by linarith
  then show n: "0 \<le>s n" by (simp add: word_sle_eq)
  note sn = sint_nonneg_unat [OF n]
  have "int (unat i) < int (unat n)" using \<open>sint i < sint n\<close> by (simp only: si sn)
  then show "unat i < unat n" by (simp only: of_nat_less_iff)
qed

lemma sle_unat:
  assumes i: "0 \<le>s (i :: word32)" and le: "i \<le>s n"
  shows "unat i \<le> unat n" and "0 \<le>s n"
proof -
  note si = sint_nonneg_unat [OF i]
  have "0 \<le> sint i" "sint i \<le> sint n" using i le by (simp_all add: word_sle_eq)
  then have "0 \<le> sint n" by linarith
  then show n: "0 \<le>s n" by (simp add: word_sle_eq)
  note sn = sint_nonneg_unat [OF n]
  have "int (unat i) \<le> int (unat n)" using \<open>sint i \<le> sint n\<close> by (simp only: si sn)
  then show "unat i \<le> unat n" by (simp only: of_nat_le_iff)
qed

lemma sless_Suc:
  assumes i: "0 \<le>s (i :: word32)" and lt: "i <s n"
  shows "unat (i + 1) = Suc (unat i)" and "0 \<le>s i + 1" and "i + 1 \<le>s n"
proof -
  note u = sless_unat [OF i lt]
  note sn = sint_nonneg_unat [OF u(2)]
  have "Suc (unat i) \<le> unat n" using u(1) by simp
  then have b: "Suc (unat i) < 2 ^ 31" using sn(1) by (rule le_less_trans)
  have "(2 :: nat) ^ 31 \<le> 2 ^ 32" by (rule power_increasing) simp_all
  then have "Suc (unat i) < 2 ^ 32" using b by (rule less_le_trans [rotated])
  then have "unat i + unat (1 :: word32) < 2 ^ LENGTH(32)" by simp
  then have "unat (i + 1) = unat i + unat (1 :: word32)"
    by (rule iffD1 [OF unat_add_lem])
  then show s: "unat (i + 1) = Suc (unat i)" by simp
  have s31: "unat (i + 1) < 2 ^ 31" using b by (simp only: s)
  then show "0 \<le>s i + 1" by (rule small_nonneg)
  have si: "sint (i + 1) = int (unat (i + 1))" using s31 by (rule sint_small)
  have "int (unat (i + 1)) \<le> int (unat n)" using \<open>Suc (unat i) \<le> unat n\<close> by (simp only: s of_nat_le_iff)
  then show "i + 1 \<le>s n" by (simp only: word_sle_eq si sn)
qed

lemma zeroRegisters_run:
  "0 \<le>s i \<Longrightarrow> i \<le>s n \<Longrightarrow> unat n \<le> length regs \<Longrightarrow>
   zeroRegisters i n regs
     = Inr (take (unat i) regs @ replicate (unat n - unat i) 0 @ drop (unat n) regs)"
proof (induction i n regs rule: zeroRegisters.induct)
  case (1 i n regs)
  show ?case
  proof (cases "i <s n")
    case True
    note u = sless_unat [OF "1.prems"(1) True] and s = sless_Suc [OF "1.prems"(1) True]
    have w: "WriteRegister i 0 regs = Inr (regs[unat i := 0])"
      using "1.prems" u by (simp add: WriteRegister_def)
    have "zeroRegisters (i + 1) n (regs[unat i := 0])
        = Inr (take (unat (i + 1)) (regs[unat i := 0]) @ replicate (unat n - unat (i + 1)) 0
                 @ drop (unat n) (regs[unat i := 0]))"
      using "1.prems" s by (intro "1.IH" [OF True w]) simp_all
    moreover have "take (Suc (unat i)) (regs[unat i := 0]) = take (unat i) regs @ [0]"
      using u "1.prems" by (simp add: take_Suc_conv_app_nth)
    moreover have "replicate (unat n - unat i) (0 :: word32) = 0 # replicate (unat n - Suc (unat i)) 0"
      using u by (simp add: Suc_diff_Suc flip: replicate_Suc)
    moreover have "drop (unat n) (regs[unat i := 0]) = drop (unat n) regs"
      using u by simp
    ultimately show ?thesis
      using True w by (subst zeroRegisters.simps) (simp add: s)
  next
    case False
    then have "sint i = sint n" using "1.prems" by (simp add: word_sle_eq word_sless_alt)
    then have "i = n" by (rule signed_word_eqI)
    then show ?thesis using False by (subst zeroRegisters.simps) simp
  qed
qed

lemma InitRegisters_result:
  assumes ok: "regs_ok cfg sys"
  shows "InitRegisters cfg this sys =
     Inr (sys\<lparr>registers := (replicate (unat (NumTotalRegs cfg)) 0)
            [unat (PCReg cfg) := 0, unat (NextPCReg cfg) := 4,
             unat (StackReg cfg) := numPages this * PageSize cfg - 16]\<rparr>)"
proof -
  let ?N = "NumTotalRegs cfg"
  have n: "0 \<le>s ?N" and len: "length (registers sys) = unat ?N"
    and pc: "0 \<le>s PCReg cfg" "PCReg cfg <s ?N"
    and npc: "0 \<le>s NextPCReg cfg" "NextPCReg cfg <s ?N"
    and sp: "0 \<le>s StackReg cfg" "StackReg cfg <s ?N"
    using ok by (simp_all add: regs_ok_def)
  have "zeroRegisters 0 ?N (registers sys)
      = Inr (take (unat (0 :: word32)) (registers sys) @ replicate (unat ?N - unat (0 :: word32)) 0
               @ drop (unat ?N) (registers sys))"
    using n len by (intro zeroRegisters_run) simp_all
  then have z: "zeroRegisters 0 ?N (registers sys) = Inr (replicate (unat ?N) 0)"
    using len by simp
  note b = sless_unat(1) [OF pc] sless_unat(1) [OF npc] sless_unat(1) [OF sp]
  show ?thesis
    using z b pc(1) npc(1) sp(1) by (simp add: InitRegisters_def WriteRegister_def)
qed

lemma stack_value:
  assumes "unat n * unat p < 2 ^ 31"
  shows "sint (n * p - 16 :: word32) = int (unat n * unat p) - 16"
proof -
  let ?m = "unat n * unat p"
  have "(2 :: nat) ^ 31 \<le> 2 ^ 32" by (rule power_increasing) simp_all
  then have "?m < 2 ^ 32" using assms by (rule less_le_trans [rotated])
  then have "?m < 2 ^ LENGTH(32)" by simp
  then have u: "unat (n * p) = ?m" by (rule iffD1 [OF unat_mult_lem])
  have "unat (n * p) < 2 ^ 31" using assms by (simp only: u)
  then have "sint (n * p) = int (unat (n * p))" by (rule sint_small)
  then have s: "sint (n * p) = int ?m" by (simp only: u)
  have hi: "int ?m < 2 ^ 31" using assms by (simp only: of_nat_less_numeral_power_cancel_iff)
  have lo: "0 \<le> int ?m" by (rule of_nat_0_le_iff)
  have "sint (n * p - 16) = signed_take_bit 31 (sint (n * p) - sint (16 :: word32))"
    by (simp add: sint_word_ariths)
  also have "sint (16 :: word32) = 16" by simp
  also have "signed_take_bit 31 (sint (n * p) - 16) = sint (n * p) - 16"
    using hi lo by (intro signed_take_bit_int_eq_self) (simp_all add: s)
  finally show ?thesis by (simp only: s)
qed

text \<open>
  C9. \<open>InitRegisters\<close> writes 0 to every register and then sets the program counter
  to 0, the next program counter to 4 and the stack pointer to
  \<open>numPages * PageSize - 16\<close>, so that every other register holds 0; with 9 pages of
  128 bytes the stack pointer is 1136. The register file has \<open>NumTotalRegs\<close> registers,
  among them the three named ones, which are distinct.
\<close>

theorem InitRegisters_registers:
  assumes ok: "regs_ok cfg sys"
  shows "\<exists>sys'. InitRegisters cfg this sys = Inr sys' \<and>
     mainMemory sys' = mainMemory sys \<and> totalPagesCount sys' = totalPagesCount sys \<and>
     length (registers sys') = unat (NumTotalRegs cfg) \<and>
     registers sys' ! unat (PCReg cfg) = 0 \<and>
     registers sys' ! unat (NextPCReg cfg) = 4 \<and>
     registers sys' ! unat (StackReg cfg) = numPages this * PageSize cfg - 16 \<and>
     (\<forall>r < unat (NumTotalRegs cfg).
        r \<noteq> unat (PCReg cfg) \<longrightarrow> r \<noteq> unat (NextPCReg cfg) \<longrightarrow> r \<noteq> unat (StackReg cfg) \<longrightarrow>
        registers sys' ! r = 0) \<and>
     (unat (numPages this) * unat (PageSize cfg) < 2 ^ 31 \<longrightarrow>
        sint (registers sys' ! unat (StackReg cfg))
          = int (unat (numPages this) * unat (PageSize cfg)) - 16) \<and>
     (numPages this = 9 \<and> PageSize cfg = 128 \<longrightarrow> registers sys' ! unat (StackReg cfg) = 1136)"
proof -
  let ?N = "unat (NumTotalRegs cfg)"
  let ?pc = "unat (PCReg cfg)" and ?npc = "unat (NextPCReg cfg)" and ?sp = "unat (StackReg cfg)"
  let ?v = "numPages this * PageSize cfg - 16"
  let ?r = "(replicate ?N (0 :: word32)) [?pc := 0, ?npc := 4, ?sp := ?v]"
  have pc: "0 \<le>s PCReg cfg" "PCReg cfg <s NumTotalRegs cfg"
    and npc: "0 \<le>s NextPCReg cfg" "NextPCReg cfg <s NumTotalRegs cfg"
    and sp: "0 \<le>s StackReg cfg" "StackReg cfg <s NumTotalRegs cfg"
    and d: "PCReg cfg \<noteq> NextPCReg cfg" "PCReg cfg \<noteq> StackReg cfg" "NextPCReg cfg \<noteq> StackReg cfg"
    using ok by (simp_all add: regs_ok_def)
  note b = sless_unat(1) [OF pc] sless_unat(1) [OF npc] sless_unat(1) [OF sp]
  have dn: "?pc \<noteq> ?npc" "?pc \<noteq> ?sp" "?npc \<noteq> ?sp"
    using d by (simp_all add: word_unat_eq_iff)
  have 1: "?r ! ?pc = 0" using b dn by simp
  have 2: "?r ! ?npc = 4" using b dn by simp
  have 3: "?r ! ?sp = ?v" using b dn by simp
  have 4: "\<forall>r < ?N. r \<noteq> ?pc \<longrightarrow> r \<noteq> ?npc \<longrightarrow> r \<noteq> ?sp \<longrightarrow> ?r ! r = 0" by simp
  have 5: "unat (numPages this) * unat (PageSize cfg) < 2 ^ 31 \<longrightarrow>
        sint (?r ! ?sp) = int (unat (numPages this) * unat (PageSize cfg)) - 16"
    unfolding 3 using stack_value by blast
  have 6: "numPages this = 9 \<and> PageSize cfg = 128 \<longrightarrow> ?r ! ?sp = 1136"
    unfolding 3 by auto
  have 7: "length ?r = ?N" by simp
  have sel: "registers (sys\<lparr>registers := ?r\<rparr>) = ?r"
    "mainMemory (sys\<lparr>registers := ?r\<rparr>) = mainMemory sys"
    "totalPagesCount (sys\<lparr>registers := ?r\<rparr>) = totalPagesCount sys"
    by simp_all
  show ?thesis
    unfolding InitRegisters_result [OF ok]
    by (rule exI [of _ "sys\<lparr>registers := ?r\<rparr>"], unfold sel, intro conjI)
       (rule refl 1 2 3 4 5 6 7)+
qed

lemma regs_ok_stock: "regs_ok stock_config boot_system"
  by (simp add: regs_ok_def stock_config_def boot_system_def word_sle_eq word_sless_alt)

theorem InitRegisters_registers_witness:
  "regs_ok stock_config boot_system \<and>
   (\<exists>sys'. InitRegisters stock_config \<lparr>pageTable = [], numPages = 9\<rparr> boot_system = Inr sys' \<and>
      registers sys' ! 34 = 0 \<and> registers sys' ! 35 = 4 \<and> registers sys' ! 29 = 1136 \<and>
      registers sys' ! 7 = 0)"
proof -
  obtain sys' where "InitRegisters stock_config \<lparr>pageTable = [], numPages = 9\<rparr> boot_system = Inr sys'"
    and "registers sys' ! unat (PCReg stock_config) = 0"
    and "registers sys' ! unat (NextPCReg stock_config) = 4"
    and "registers sys' ! unat (StackReg stock_config)
           = numPages \<lparr>pageTable = [], numPages = 9\<rparr> * PageSize stock_config - 16"
    and "\<forall>r < unat (NumTotalRegs stock_config).
        r \<noteq> unat (PCReg stock_config) \<longrightarrow> r \<noteq> unat (NextPCReg stock_config) \<longrightarrow>
        r \<noteq> unat (StackReg stock_config) \<longrightarrow> registers sys' ! r = 0"
    using InitRegisters_registers [OF regs_ok_stock, of "\<lparr>pageTable = [], numPages = 9\<rparr>"] by blast
  then have "InitRegisters stock_config \<lparr>pageTable = [], numPages = 9\<rparr> boot_system = Inr sys' \<and>
      registers sys' ! 34 = 0 \<and> registers sys' ! 35 = 4 \<and> registers sys' ! 29 = 1136 \<and>
      registers sys' ! 7 = 0"
    by (simp add: stock_config_def)
  then show ?thesis using regs_ok_stock by blast
qed

subsection \<open>The page table of a new address space\<close>

lemma fillPageTable_run:
  "unat i \<le> unat n \<Longrightarrow> length tbl = unat n \<Longrightarrow>
   fillPageTable i n c tbl =
     take (unat i) tbl @
     map (\<lambda>j. \<lparr>virtualPage = word_of_nat j, physicalPage = word_of_nat j + c, valid = True,
                 readOnly = False, use = False, dirty = False\<rparr>) [unat i ..< unat n]"
proof (induction i n c tbl rule: fillPageTable.induct)
  case (1 i n c tbl)
  let ?e = "\<lparr>virtualPage = i, physicalPage = i + c, valid = True,
              readOnly = False, use = False, dirty = False\<rparr>"
  show ?case
  proof (cases "i < n")
    case True
    then have lt: "unat i < unat n" by (simp add: word_less_nat_alt)
    have s: "unat (i + 1) = Suc (unat i)" using True by unat_arith
    have "fillPageTable (i + 1) n c (tbl[unat i := ?e]) =
       take (unat (i + 1)) (tbl[unat i := ?e]) @
       map (\<lambda>j. \<lparr>virtualPage = word_of_nat j, physicalPage = word_of_nat j + c, valid = True,
                 readOnly = False, use = False, dirty = False\<rparr>) [unat (i + 1) ..< unat n]"
      using lt s "1.prems" by (intro "1.IH" [OF True]) simp_all
    moreover have "take (Suc (unat i)) (tbl[unat i := ?e]) = take (unat i) tbl @ [?e]"
      using lt "1.prems" by (simp add: take_Suc_conv_app_nth)
    moreover have "[unat i ..< unat n] = unat i # [Suc (unat i) ..< unat n]"
      using lt by (rule upt_conv_Cons)
    ultimately show ?thesis
      using True by (subst fillPageTable.simps) (simp add: s)
  next
    case False
    then have "unat i = unat n" using "1.prems" by (simp add: word_less_nat_alt)
    then show ?thesis using False "1.prems" by (subst fillPageTable.simps) simp
  qed
qed

lemma fillPageTable_fresh:
  "fillPageTable 0 n c (replicate (unat n) unset) =
     map (\<lambda>j. \<lparr>virtualPage = word_of_nat j, physicalPage = word_of_nat j + c, valid = True,
                 readOnly = False, use = False, dirty = False\<rparr>) [0 ..< unat n]"
  using fillPageTable_run [of 0 n "replicate (unat n) unset" c] by simp

lemma Translate_cases:
  assumes "Translate cfg this virtAddr pgTable pgSize = Inr (exc, physAddr, this')"
  shows "this' = this \<or>
         (\<exists>k < length (pageTable this).
            this' = this\<lparr>pageTable := (pageTable this)[k := (pageTable this ! k)\<lparr>use := True\<rparr>]\<rparr>)"
  using assms by (auto simp: Translate_def Let_def split: if_splits)

lemma erase_use_update:
  "k < length xs \<Longrightarrow>
   map (\<lambda>e. e\<lparr>use := False\<rparr>) (xs[k := (xs ! k)\<lparr>use := True\<rparr>]) = map (\<lambda>e. e\<lparr>use := False\<rparr>) xs"
  by (simp add: map_update list_update_same_conv)

lemma Translate_erase_use:
  assumes "Translate cfg this virtAddr pgTable pgSize = Inr (exc, physAddr, this')"
  shows "numPages this' = numPages this \<and>
         map (\<lambda>e. e\<lparr>use := False\<rparr>) (pageTable this') = map (\<lambda>e. e\<lparr>use := False\<rparr>) (pageTable this)"
  using Translate_cases [OF assms] by (auto simp: erase_use_update)

lemma ReadAt_length: "ReadAt file mem into numBytes position = Inr mem' \<Longrightarrow> length mem' = length mem"
  by (auto simp: ReadAt_def Let_def split: if_splits)

lemma loadSegment_frame:
  assumes "loadSegment cfg executable seg (this, pa, mem) = Inr (this', pa', mem')"
  shows "numPages this' = numPages this \<and>
         map (\<lambda>e. e\<lparr>use := False\<rparr>) (pageTable this') = map (\<lambda>e. e\<lparr>use := False\<rparr>) (pageTable this) \<and>
         length mem' = length mem"
proof (cases "size_seg seg > 0")
  case False
  then show ?thesis using assms by (simp add: loadSegment_def)
next
  case True
  show ?thesis
  proof (cases "Translate cfg this (virtualAddr seg) (pageTable this) (numPages this)")
    case (Inl a)
    then show ?thesis using assms True by (simp add: loadSegment_def)
  next
    case (Inr r)
    then obtain exc stored where t: "Translate cfg this (virtualAddr seg) (pageTable this) (numPages this)
      = Inr (exc, stored, this')"
      using assms True
      by (cases r) (auto simp: loadSegment_def split: sum.splits option.splits)
    have "\<exists>a :: word32. ReadAt (fileBytes executable) mem (unat a) (size_seg seg) (inFileAddr seg) = Inr mem'"
      using assms True t by (auto simp: loadSegment_def split: sum.splits option.splits)
    then obtain a :: word32 where rd: "ReadAt (fileBytes executable) mem (unat a) (size_seg seg) (inFileAddr seg) = Inr mem'"
      by blast
    show ?thesis using Translate_erase_use [OF t] ReadAt_length [OF rd] by simp
  qed
qed

lemma erase_use_fresh:
  "map (\<lambda>e. e\<lparr>use := False\<rparr>) (fillPageTable 0 n c (replicate (unat n) unset))
     = fillPageTable 0 n c (replicate (unat n) unset)"
  by (simp add: fillPageTable_fresh)

lemma from_file_Inr:
  assumes "AddrSpace_from_file cfg executable sys = Inr (this, sys')"
  shows "PageSize cfg \<noteq> 0"
    and "noffMagic (readHeader cfg executable) = NOFFMAGIC cfg"
    and "numPages this =
           divRoundUp (size_seg (code (readHeader cfg executable))
                        + size_seg (initData (readHeader cfg executable))
                        + size_seg (uninitData (readHeader cfg executable)) + UserStackSize cfg)
             (PageSize cfg)"
    and "numPages this \<le> NumPhysPages cfg"
    and "totalPagesCount sys + numPages this \<le>s NumPhysPages cfg"
    and "totalPagesCount sys' = totalPagesCount sys + numPages this"
    and "map (\<lambda>e. e\<lparr>use := False\<rparr>) (pageTable this)
           = fillPageTable 0 (numPages this) (totalPagesCount sys) (replicate (unat (numPages this)) unset)"
    and "registers sys' = registers sys"
    and "length (mainMemory sys') = length (mainMemory sys)"
proof -
  let ?h = "readHeader cfg executable"
  let ?n = "divRoundUp (size_seg (code ?h) + size_seg (initData ?h) + size_seg (uninitData ?h)
              + UserStackSize cfg) (PageSize cfg)"
  let ?c = "totalPagesCount sys + ?n"
  let ?tbl = "fillPageTable 0 ?n (totalPagesCount sys) (replicate (unat ?n) unset)"
  have g1: "noffMagic ?h = NOFFMAGIC cfg"
    using assms by (rule contrapos_pp) (simp add: AddrSpace_from_file_def Let_def)
  have g2: "PageSize cfg \<noteq> 0"
    using assms g1 by (rule_tac contrapos_pn [of "AddrSpace_from_file cfg executable sys = Inr (this, sys')"])
      (simp_all add: AddrSpace_from_file_def Let_def)
  have g3: "?n \<le> NumPhysPages cfg"
    using assms g1 g2 by (rule_tac contrapos_pp [of "AddrSpace_from_file cfg executable sys = Inr (this, sys')"])
      (simp_all add: AddrSpace_from_file_def Let_def)
  have g4: "?c \<le>s NumPhysPages cfg"
    using assms g1 g2 g3 by (rule_tac contrapos_pp [of "AddrSpace_from_file cfg executable sys = Inr (this, sys')"])
      (simp_all add: AddrSpace_from_file_def Let_def)
  note g = g1 g2 g3 g4
  have e: "AddrSpace_from_file cfg executable sys =
     (case bzero (mainMemory sys) (unat (?c * PageSize cfg)) of
        Inl a \<Rightarrow> Inl a
      | Inr mem \<Rightarrow>
         (case loadSegment cfg executable (code ?h) (\<lparr>pageTable = ?tbl, numPages = ?n\<rparr>, None, mem) of
            Inl a \<Rightarrow> Inl a
          | Inr st \<Rightarrow>
              (case loadSegment cfg executable (initData ?h) st of
                 Inl a \<Rightarrow> Inl a
               | Inr (this, physicalAddress, mem') \<Rightarrow>
                   Inr (this, sys\<lparr>mainMemory := mem', totalPagesCount := ?c\<rparr>))))"
    using g by (simp add: AddrSpace_from_file_def Let_def)
  from assms have a1: "(case bzero (mainMemory sys) (unat (?c * PageSize cfg)) of
        Inl a \<Rightarrow> Inl a
      | Inr mem \<Rightarrow>
         (case loadSegment cfg executable (code ?h) (\<lparr>pageTable = ?tbl, numPages = ?n\<rparr>, None, mem) of
            Inl a \<Rightarrow> Inl a
          | Inr st \<Rightarrow>
              (case loadSegment cfg executable (initData ?h) st of
                 Inl a \<Rightarrow> Inl a
               | Inr (this, physicalAddress, mem') \<Rightarrow>
                   Inr (this, sys\<lparr>mainMemory := mem', totalPagesCount := ?c\<rparr>)))) = Inr (this, sys')"
    by (simp only: e)
  then obtain mem0 st1 pa2 mem2 where
      z: "bzero (mainMemory sys) (unat (?c * PageSize cfg)) = Inr mem0"
    and l1: "loadSegment cfg executable (code ?h) (\<lparr>pageTable = ?tbl, numPages = ?n\<rparr>, None, mem0) = Inr st1"
    and l2: "loadSegment cfg executable (initData ?h) st1 = Inr (this, pa2, mem2)"
    and s': "sys' = sys\<lparr>mainMemory := mem2, totalPagesCount := ?c\<rparr>"
    by (auto split: sum.splits)
  obtain this1 pa1 mem1 where st1: "st1 = (this1, pa1, mem1)" by (cases st1) 
  note f1 = loadSegment_frame [OF l1 [unfolded st1]]
  note f2 = loadSegment_frame [OF l2 [unfolded st1]]
  have m0: "length mem0 = length (mainMemory sys)"
    using z by (auto simp: bzero_def split: if_splits)
  have n: "numPages this = ?n" using f1 f2 by simp
  show "PageSize cfg \<noteq> 0" "noffMagic ?h = NOFFMAGIC cfg" using g by blast+
  show "numPages this = ?n" by (rule n)
  show "numPages this \<le> NumPhysPages cfg" "totalPagesCount sys + numPages this \<le>s NumPhysPages cfg"
    using g3 g4 by (simp_all only: n)
  show "totalPagesCount sys' = totalPagesCount sys + numPages this" using s' by (simp add: n)
  show "map (\<lambda>e. e\<lparr>use := False\<rparr>) (pageTable this)
           = fillPageTable 0 (numPages this) (totalPagesCount sys) (replicate (unat (numPages this)) unset)"
    using f1 f2 by (simp add: n erase_use_fresh)
  show "registers sys' = registers sys" using s' by simp
  show "length (mainMemory sys') = length (mainMemory sys)" using s' f1 f2 m0 by simp
qed

lemma from_parent_Inr:
  assumes "AddrSpace_from_parent cfg numParentPages parentStartPhysPage sys = Inr (this, sys')"
  shows "numPages this = numParentPages"
    and "numPages this \<le> NumPhysPages cfg"
    and "totalPagesCount sys + numPages this \<le>s NumPhysPages cfg"
    and "totalPagesCount sys' = totalPagesCount sys + numPages this"
    and "pageTable this
           = fillPageTable 0 (numPages this) (totalPagesCount sys) (replicate (unat (numPages this)) unset)"
    and "registers sys' = registers sys"
  using assms by (auto simp: AddrSpace_from_parent_def Let_def split: if_splits sum.splits)

lemma machine_ok_frames:
  assumes "machine_ok cfg"
  shows "4 * unat (NumPhysPages cfg) < 2 ^ 31"
proof -
  have p: "0 < unat (PageSize cfg)" "4 dvd unat (PageSize cfg)"
    and np: "unat (NumPhysPages cfg) * unat (PageSize cfg) < 2 ^ 31"
    using assms machine_ok_PageSize [OF assms] by (simp_all add: machine_ok_def)
  from p have "4 \<le> unat (PageSize cfg)" by (auto elim!: dvdE)
  then have "unat (NumPhysPages cfg) * 4 \<le> unat (NumPhysPages cfg) * unat (PageSize cfg)"
    by (rule mult_le_mono2)
  then have "unat (NumPhysPages cfg) * 4 < 2 ^ 31" using np by (rule le_less_trans)
  then show ?thesis by (simp only: mult.commute)
qed

lemma counter_after:
  assumes ok: "machine_ok cfg" and inv: "c \<le> NumPhysPages cfg" and n: "n \<le> NumPhysPages cfg"
    and a: "c + n \<le>s NumPhysPages cfg"
  shows "unat (c + n) = unat c + unat n"
    and "unat c + unat n \<le> unat (NumPhysPages cfg)"
    and "unat (NumPhysPages cfg) < 2 ^ 31"
proof -
  let ?N = "unat (NumPhysPages cfg)"
  note f = machine_ok_frames [OF ok]
  have cn: "unat c \<le> ?N" "unat n \<le> ?N" using inv n by (simp_all add: word_le_nat_alt)
  have "unat c + unat n \<le> 4 * ?N" using cn by simp
  then have s31: "unat c + unat n < 2 ^ 31" using f by (rule le_less_trans)
  have "(2 :: nat) ^ 31 \<le> 2 ^ 32" by (rule power_increasing) simp_all
  then have "unat c + unat n < 2 ^ 32" using s31 by (rule less_le_trans [rotated])
  then have "unat c + unat n < 2 ^ LENGTH(32)" by simp
  then show u: "unat (c + n) = unat c + unat n" by (rule iffD1 [OF unat_add_lem])
  have "?N \<le> 4 * ?N" by simp
  then show N31: "?N < 2 ^ 31" using f by (rule le_less_trans)
  have "unat (c + n) < 2 ^ 31" using s31 by (simp only: u)
  then have s1: "sint (c + n) = int (unat (c + n))" by (rule sint_small)
  have s2: "sint (NumPhysPages cfg) = int ?N" using N31 by (rule sint_small)
  have "int (unat (c + n)) \<le> int ?N" using a by (simp only: word_sle_eq s1 s2)
  then have "unat (c + n) \<le> ?N" by (simp only: of_nat_le_iff)
  then show "unat c + unat n \<le> ?N" by (simp only: u)
qed

lemma frame_of_page:
  assumes b: "unat c + unat n \<le> N" and N: "N < 2 ^ 31" and j: "j < unat (n :: word32)"
  shows "unat (word_of_nat j + c :: word32) = unat c + j"
proof -
  have "j \<le> unat n" using j by simp
  then have uj: "unat (word_of_nat j :: word32) = j" by (rule le_unat_uoi)
  have "j + unat c \<le> unat c + unat n" using j by simp
  then have "j + unat c \<le> N" using b by (rule le_trans)
  then have "j + unat c < 2 ^ 31" using N by (rule le_less_trans)
  moreover have "(2 :: nat) ^ 31 \<le> 2 ^ 32" by (rule power_increasing) simp_all
  ultimately have "j + unat c < 2 ^ 32" by (rule less_le_trans)
  then have "j + unat c < 2 ^ LENGTH(32)" by simp
  then have "unat (word_of_nat j :: word32) + unat c < 2 ^ LENGTH(32)" by (simp only: uj)
  then have "unat (word_of_nat j + c) = unat (word_of_nat j :: word32) + unat c"
    by (rule iffD1 [OF unat_add_lem])
  then have "unat (word_of_nat j + c) = j + unat c" by (simp only: uj)
  then show ?thesis by (simp only: add.commute)
qed

lemma distinct_frames:
  assumes "\<forall>j < length xs. unat (physicalPage (xs ! j)) = k + j"
  shows "distinct (map physicalPage xs)"
proof -
  have "physicalPage (xs ! i) \<noteq> physicalPage (xs ! j)" if "i < length xs" "j < length xs" "i \<noteq> j" for i j
  proof
    assume "physicalPage (xs ! i) = physicalPage (xs ! j)"
    then have "unat (physicalPage (xs ! i)) = unat (physicalPage (xs ! j))" by simp
    then show False using assms that by simp
  qed
  then show ?thesis by (simp add: distinct_conv_nth)
qed

lemma Translate_untouched:
  assumes "Translate cfg this virtAddr pgTable pgSize = Inr (exc, physAddr, this')"
    and "j \<noteq> unat (virtAddr div PageSize cfg)"
  shows "pageTable this' ! j = pageTable this ! j"
  using assms by (auto simp: Translate_def Let_def split: if_splits)

lemma loadSegment_untouched:
  assumes l: "loadSegment cfg executable seg (this, pa, mem) = Inr (this', pa', mem')"
    and j: "size_seg seg = 0 \<or> j \<noteq> unat (virtualAddr seg div PageSize cfg)"
  shows "pageTable this' ! j = pageTable this ! j"
proof (cases "size_seg seg > 0")
  case False
  then show ?thesis using l by (simp add: loadSegment_def)
next
  case True
  then have ne: "j \<noteq> unat (virtualAddr seg div PageSize cfg)" using j by auto
  show ?thesis
  proof (cases "Translate cfg this (virtualAddr seg) (pageTable this) (numPages this)")
    case (Inl a)
    then show ?thesis using l True by (simp add: loadSegment_def)
  next
    case (Inr r)
    then obtain exc stored where t: "Translate cfg this (virtualAddr seg) (pageTable this) (numPages this)
      = Inr (exc, stored, this')"
      using l True
      by (cases r) (auto simp: loadSegment_def split: sum.splits option.splits)
    show ?thesis using t ne by (rule Translate_untouched)
  qed
qed

lemma from_file_untouched:
  assumes r: "AddrSpace_from_file cfg executable sys = Inr (this, sys')"
    and c: "size_seg (code (readHeader cfg executable)) = 0 \<or>
            j \<noteq> unat (virtualAddr (code (readHeader cfg executable)) div PageSize cfg)"
    and d: "size_seg (initData (readHeader cfg executable)) = 0 \<or>
            j \<noteq> unat (virtualAddr (initData (readHeader cfg executable)) div PageSize cfg)"
  shows "pageTable this ! j
           = fillPageTable 0 (numPages this) (totalPagesCount sys) (replicate (unat (numPages this)) unset) ! j"
proof -
  let ?h = "readHeader cfg executable"
  let ?n = "divRoundUp (size_seg (code ?h) + size_seg (initData ?h) + size_seg (uninitData ?h)
              + UserStackSize cfg) (PageSize cfg)"
  let ?c = "totalPagesCount sys + ?n"
  let ?tbl = "fillPageTable 0 ?n (totalPagesCount sys) (replicate (unat ?n) unset)"
  note f = from_file_Inr [OF r]
  have e: "AddrSpace_from_file cfg executable sys =
     (case bzero (mainMemory sys) (unat (?c * PageSize cfg)) of
        Inl a \<Rightarrow> Inl a
      | Inr mem \<Rightarrow>
         (case loadSegment cfg executable (code ?h) (\<lparr>pageTable = ?tbl, numPages = ?n\<rparr>, None, mem) of
            Inl a \<Rightarrow> Inl a
          | Inr st \<Rightarrow>
              (case loadSegment cfg executable (initData ?h) st of
                 Inl a \<Rightarrow> Inl a
               | Inr (this, physicalAddress, mem') \<Rightarrow>
                   Inr (this, sys\<lparr>mainMemory := mem', totalPagesCount := ?c\<rparr>))))"
    using f(1,2,4,5) unfolding f(3) by (simp add: AddrSpace_from_file_def Let_def)
  from r have "(case bzero (mainMemory sys) (unat (?c * PageSize cfg)) of
        Inl a \<Rightarrow> Inl a
      | Inr mem \<Rightarrow>
         (case loadSegment cfg executable (code ?h) (\<lparr>pageTable = ?tbl, numPages = ?n\<rparr>, None, mem) of
            Inl a \<Rightarrow> Inl a
          | Inr st \<Rightarrow>
              (case loadSegment cfg executable (initData ?h) st of
                 Inl a \<Rightarrow> Inl a
               | Inr (this, physicalAddress, mem') \<Rightarrow>
                   Inr (this, sys\<lparr>mainMemory := mem', totalPagesCount := ?c\<rparr>)))) = Inr (this, sys')"
    by (simp only: e)
  then obtain mem0 st1 pa2 mem2 where
      l1: "loadSegment cfg executable (code ?h) (\<lparr>pageTable = ?tbl, numPages = ?n\<rparr>, None, mem0) = Inr st1"
    and l2: "loadSegment cfg executable (initData ?h) st1 = Inr (this, pa2, mem2)"
    by (auto split: sum.splits)
  obtain this1 pa1 mem1 where st1: "st1 = (this1, pa1, mem1)" by (cases st1)
  have "pageTable this ! j = pageTable this1 ! j"
    using l2 [unfolded st1] d by (rule loadSegment_untouched)
  also have "\<dots> = pageTable \<lparr>pageTable = ?tbl, numPages = ?n\<rparr> ! j"
    using l1 [unfolded st1] c by (rule loadSegment_untouched)
  finally show ?thesis by (simp add: f(3))
qed

text \<open>
  C5. Both constructors store, at every index \<open>i\<close> below \<open>numPages\<close>, the entry with
  virtual page \<open>i\<close>, physical page \<open>i + c\<close> for the value \<open>c\<close> of the counter before the
  construction, \<open>valid\<close> true and \<open>use\<close>, \<open>dirty\<close> and \<open>readOnly\<close> false, and then add
  \<open>numPages\<close> to the counter, where \<open>numPages\<close> is the page count of the parent in the
  constructor from a parent and the rounded-up quotient of the image size in the
  constructor from a file. After the constructor from a parent the table of the object
  is exactly the one stored. After the constructor from a file every entry is the one
  stored, with \<open>use\<close> false, except the at most two entries that \<open>Translate\<close> consults
  for the start of a non-empty code or initialised data segment, which may have their
  use bit set and are otherwise as stored. The physical pages of a table are
  \<open>c, c + 1, ...\<close>, pairwise distinct and below the number of frames; a table of 3
  pages built at counter 9 has frames 9, 10 and 11 and leaves the counter at 12. The
  counter before the construction is at most the number of frames, which every
  construction preserves.
\<close>

theorem construction_page_table:
  assumes ok: "machine_ok cfg" and inv: "totalPagesCount sys \<le> NumPhysPages cfg"
    and r: "AddrSpace_from_file cfg executable sys = Inr (this, sys') \<or>
            AddrSpace_from_parent cfg numParentPages parentStartPhysPage sys = Inr (this, sys')"
  shows "(\<forall>i < unat (numPages this).
            fillPageTable 0 (numPages this) (totalPagesCount sys) (replicate (unat (numPages this)) unset) ! i
              = \<lparr>virtualPage = word_of_nat i, physicalPage = word_of_nat i + totalPagesCount sys,
                 valid = True, readOnly = False, use = False, dirty = False\<rparr>) \<and>
         map (\<lambda>e. e\<lparr>use := False\<rparr>) (pageTable this)
           = fillPageTable 0 (numPages this) (totalPagesCount sys) (replicate (unat (numPages this)) unset) \<and>
         (AddrSpace_from_parent cfg numParentPages parentStartPhysPage sys = Inr (this, sys') \<longrightarrow>
            numPages this = numParentPages \<and>
            pageTable this
              = fillPageTable 0 (numPages this) (totalPagesCount sys) (replicate (unat (numPages this)) unset) \<and>
            (\<forall>i < unat numParentPages.
               pageTable this ! i
                 = \<lparr>virtualPage = word_of_nat i, physicalPage = word_of_nat i + totalPagesCount sys,
                    valid = True, readOnly = False, use = False, dirty = False\<rparr>)) \<and>
         (AddrSpace_from_file cfg executable sys = Inr (this, sys') \<longrightarrow>
            numPages this
              = divRoundUp (size_seg (code (readHeader cfg executable))
                             + size_seg (initData (readHeader cfg executable))
                             + size_seg (uninitData (readHeader cfg executable)) + UserStackSize cfg)
                  (PageSize cfg) \<and>
            (\<forall>i < unat (numPages this).
               (size_seg (code (readHeader cfg executable)) = 0 \<or>
                i \<noteq> unat (virtualAddr (code (readHeader cfg executable))) div unat (PageSize cfg)) \<longrightarrow>
               (size_seg (initData (readHeader cfg executable)) = 0 \<or>
                i \<noteq> unat (virtualAddr (initData (readHeader cfg executable))) div unat (PageSize cfg)) \<longrightarrow>
               pageTable this ! i
                 = \<lparr>virtualPage = word_of_nat i, physicalPage = word_of_nat i + totalPagesCount sys,
                    valid = True, readOnly = False, use = False, dirty = False\<rparr>)) \<and>
         (\<forall>i < unat (numPages this).
            pageTable this ! i
              = \<lparr>virtualPage = word_of_nat i, physicalPage = word_of_nat i + totalPagesCount sys,
                 valid = True, readOnly = False, use = use (pageTable this ! i), dirty = False\<rparr>) \<and>
         length (pageTable this) = unat (numPages this) \<and>
         (\<forall>i < unat (numPages this).
            unat (physicalPage (pageTable this ! i)) = unat (totalPagesCount sys) + i \<and>
            unat (physicalPage (pageTable this ! i)) < unat (NumPhysPages cfg)) \<and>
         distinct (map physicalPage (pageTable this)) \<and>
         totalPagesCount sys' = totalPagesCount sys + numPages this \<and>
         unat (totalPagesCount sys') = unat (totalPagesCount sys) + unat (numPages this) \<and>
         totalPagesCount sys' \<le> NumPhysPages cfg \<and>
         (totalPagesCount sys = 9 \<and> numPages this = 3 \<longrightarrow>
            map physicalPage (pageTable this) = [9, 10, 11] \<and> totalPagesCount sys' = 12)"
proof -
  let ?n = "numPages this" and ?c = "totalPagesCount sys"
  let ?h = "readHeader cfg executable"
  let ?mk = "\<lambda>j. \<lparr>virtualPage = word_of_nat j, physicalPage = word_of_nat j + ?c,
                 valid = True, readOnly = False, use = False, dirty = False\<rparr>"
  let ?P = "fillPageTable 0 ?n ?c (replicate (unat ?n) unset)"
  have P: "?P = map ?mk [0 ..< unat ?n]" by (rule fillPageTable_fresh)
  have base: "?n \<le> NumPhysPages cfg \<and> ?c + ?n \<le>s NumPhysPages cfg \<and>
      totalPagesCount sys' = ?c + ?n \<and> map (\<lambda>e. e\<lparr>use := False\<rparr>) (pageTable this) = ?P"
    using r
  proof
    assume f: "AddrSpace_from_file cfg executable sys = Inr (this, sys')"
    show ?thesis using from_file_Inr(4-7) [OF f] by blast
  next
    assume p: "AddrSpace_from_parent cfg numParentPages parentStartPhysPage sys = Inr (this, sys')"
    have "map (\<lambda>e. e\<lparr>use := False\<rparr>) (pageTable this) = ?P"
      using from_parent_Inr(5) [OF p] erase_use_fresh [of ?n ?c] by simp
    then show ?thesis using from_parent_Inr(2-4) [OF p] by blast
  qed
  then have n: "?n \<le> NumPhysPages cfg" and a: "?c + ?n \<le>s NumPhysPages cfg"
    and c': "totalPagesCount sys' = ?c + ?n"
    and e: "map (\<lambda>e. e\<lparr>use := False\<rparr>) (pageTable this) = ?P"
    by blast+
  note k = counter_after [OF ok inv n a]
  have 1: "\<forall>i < unat ?n. ?P ! i = ?mk i" by (simp add: P)
  have "length (map (\<lambda>e. e\<lparr>use := False\<rparr>) (pageTable this)) = length ?P" by (simp only: e)
  then have len: "length (pageTable this) = unat ?n" by (simp add: P)
  have pe: "AddrSpace_from_parent cfg numParentPages parentStartPhysPage sys = Inr (this, sys') \<longrightarrow>
      ?n = numParentPages \<and> pageTable this = ?P \<and> (\<forall>i < unat numParentPages. pageTable this ! i = ?mk i)"
  proof
    assume p: "AddrSpace_from_parent cfg numParentPages parentStartPhysPage sys = Inr (this, sys')"
    note q = from_parent_Inr(1,5) [OF p]
    have "\<forall>i < unat ?n. pageTable this ! i = ?mk i" using 1 by (simp only: q(2) [symmetric])
    then have "\<forall>i < unat numParentPages. pageTable this ! i = ?mk i" by (simp only: q(1))
    with q show "?n = numParentPages \<and> pageTable this = ?P \<and>
        (\<forall>i < unat numParentPages. pageTable this ! i = ?mk i)"
      by (intro conjI)
  qed
  have fe: "AddrSpace_from_file cfg executable sys = Inr (this, sys') \<longrightarrow>
      ?n = divRoundUp (size_seg (code ?h) + size_seg (initData ?h) + size_seg (uninitData ?h)
              + UserStackSize cfg) (PageSize cfg) \<and>
      (\<forall>i < unat ?n.
         (size_seg (code ?h) = 0 \<or> i \<noteq> unat (virtualAddr (code ?h)) div unat (PageSize cfg)) \<longrightarrow>
         (size_seg (initData ?h) = 0 \<or> i \<noteq> unat (virtualAddr (initData ?h)) div unat (PageSize cfg)) \<longrightarrow>
         pageTable this ! i = ?mk i)"
  proof
    assume f: "AddrSpace_from_file cfg executable sys = Inr (this, sys')"
    have "pageTable this ! i = ?mk i"
      if i: "i < unat ?n"
        and c: "size_seg (code ?h) = 0 \<or> i \<noteq> unat (virtualAddr (code ?h)) div unat (PageSize cfg)"
        and d: "size_seg (initData ?h) = 0 \<or> i \<noteq> unat (virtualAddr (initData ?h)) div unat (PageSize cfg)"
      for i
    proof -
      have "pageTable this ! i = ?P ! i"
        using f c d by (intro from_file_untouched) (simp_all only: unat_div)
      then show ?thesis using 1 i by simp
    qed
    then show "?n = divRoundUp (size_seg (code ?h) + size_seg (initData ?h) + size_seg (uninitData ?h)
              + UserStackSize cfg) (PageSize cfg) \<and>
      (\<forall>i < unat ?n.
         (size_seg (code ?h) = 0 \<or> i \<noteq> unat (virtualAddr (code ?h)) div unat (PageSize cfg)) \<longrightarrow>
         (size_seg (initData ?h) = 0 \<or> i \<noteq> unat (virtualAddr (initData ?h)) div unat (PageSize cfg)) \<longrightarrow>
         pageTable this ! i = ?mk i)"
      using from_file_Inr(3) [OF f] by blast
  qed
  have ee: "(pageTable this ! i)\<lparr>use := False\<rparr> = ?mk i" if "i < unat ?n" for i
  proof -
    have "map (\<lambda>e. e\<lparr>use := False\<rparr>) (pageTable this) ! i = ?P ! i" by (simp only: e)
    then show ?thesis using that len by (simp add: P)
  qed
  have 4: "\<forall>i < unat ?n. pageTable this ! i
      = \<lparr>virtualPage = word_of_nat i, physicalPage = word_of_nat i + ?c,
         valid = True, readOnly = False, use = use (pageTable this ! i), dirty = False\<rparr>"
  proof (intro allI impI)
    fix i assume "i < unat ?n"
    then have "(pageTable this ! i)\<lparr>use := False\<rparr> = ?mk i" by (rule ee)
    then show "pageTable this ! i
      = \<lparr>virtualPage = word_of_nat i, physicalPage = word_of_nat i + ?c,
         valid = True, readOnly = False, use = use (pageTable this ! i), dirty = False\<rparr>"
      by (cases "pageTable this ! i") simp
  qed
  have pp: "physicalPage (pageTable this ! i) = word_of_nat i + ?c" if "i < unat ?n" for i
  proof -
    have "physicalPage ((pageTable this ! i)\<lparr>use := False\<rparr>) = physicalPage (?mk i)"
      using ee [OF that] by simp
    then show ?thesis by simp
  qed
  have fr: "unat (physicalPage (pageTable this ! i)) = unat ?c + i" if "i < unat ?n" for i
    using frame_of_page [OF k(2) k(3) that] by (simp only: pp [OF that])
  have 5: "\<forall>i < unat ?n. unat (physicalPage (pageTable this ! i)) = unat ?c + i \<and>
            unat (physicalPage (pageTable this ! i)) < unat (NumPhysPages cfg)"
    using fr k(2) by auto
  have 6: "distinct (map physicalPage (pageTable this))"
    using fr by (intro distinct_frames [where k = "unat ?c"]) (simp add: len)
  have 8: "unat (totalPagesCount sys') = unat ?c + unat ?n" using k(1) by (simp only: c')
  have 9: "totalPagesCount sys' \<le> NumPhysPages cfg" using k(2) by (simp only: word_le_nat_alt 8)
  have 10: "map physicalPage (pageTable this) = [9, 10, 11] \<and> totalPagesCount sys' = 12"
    if s: "?c = 9 \<and> ?n = 3"
  proof -
    have "map physicalPage (pageTable this)
        = map physicalPage (map (\<lambda>e. e\<lparr>use := False\<rparr>) (pageTable this))"
      by (simp add: comp_def)
    also have "\<dots> = map physicalPage ?P" by (simp only: e)
    also have "\<dots> = map (\<lambda>j. word_of_nat j + ?c) [0 ..< unat ?n]" by (simp add: P comp_def)
    also have "\<dots> = map (\<lambda>j. word_of_nat j + 9) [0 ..< 3]" using s by simp
    also have "[0 ..< 3] = [0, 1, 2 :: nat]" by (simp add: upt_conv_Cons)
    also have "map (\<lambda>j. word_of_nat j + 9) [0, 1, 2 :: nat] = [9, 10, 11 :: word32]" by simp
    finally show ?thesis using c' s by simp
  qed
  show ?thesis
    apply (intro conjI)
    subgoal by (rule 1)
    subgoal by (rule e)
    subgoal by (rule pe)
    subgoal by (rule fe)
    subgoal by (rule 4)
    subgoal by (rule len)
    subgoal by (rule 5)
    subgoal by (rule 6)
    subgoal by (rule c')
    subgoal by (rule 8)
    subgoal by (rule 9)
    subgoal using 10 by blast
    done
qed

subsection \<open>The number of pages of an image\<close>

lemma fillPageTable_entries:
  "k = unat n \<Longrightarrow>
   fillPageTable 0 n c (replicate k unset) =
     map (\<lambda>j. \<lparr>virtualPage = word_of_nat j, physicalPage = word_of_nat j + c, valid = True,
                 readOnly = False, use = False, dirty = False\<rparr>) [0 ..< k]"
  by (simp add: fillPageTable_fresh)

lemma demo_boot:
  "\<exists>this sys'. AddrSpace_from_file stock_config demo_image boot_system = Inr (this, sys') \<and>
     numPages this = 9 \<and> totalPagesCount sys' = 9 \<and> take 128 (mainMemory sys') = replicate 128 42"
  by (simp add: AddrSpace_from_file_def readHeader_def demo_image_def stock_config_def boot_system_def
       divRoundUp_def Let_def bzero_def word_le_nat_alt word_sle_eq loadSegment_def fillPageTable_entries
       upt_conv_Cons Translate_def ReadAt_def)

lemma ceiling_div_nat:
  assumes p: "0 < p"
  shows "\<lceil>real t / real p\<rceil> = int (t div p + (if t mod p > 0 then 1 else 0))"
proof -
  have "t = t div p * p + t mod p" by simp
  then have "real t = real (t div p * p + t mod p)" by (rule arg_cong)
  then have t: "real t = real (t div p) * real p + real (t mod p)" by (simp only: of_nat_add of_nat_mult)
  have m: "real (t mod p) < real p" using p by simp
  have rp: "0 < real p" using p by simp
  have d: "real t / real p = real (t div p) + real (t mod p) / real p"
    using rp by (simp add: t field_simps)
  show ?thesis
  proof (cases "t mod p > 0")
    case True
    have "0 < real (t mod p) / real p" using True rp by simp
    moreover have "real (t mod p) / real p \<le> 1" using m rp by simp
    ultimately have "\<lceil>real t / real p\<rceil> = int (t div p) + 1"
      by (intro ceiling_unique) (simp_all add: d)
    then show ?thesis using True by simp
  next
    case False
    then have "real t / real p = real (t div p)" by (simp add: d)
    then have "\<lceil>real t / real p\<rceil> = int (t div p)" by simp
    then show ?thesis using False by simp
  qed
qed

lemma divRoundUp_nat:
  assumes s: "s \<noteq> 0"
  shows "unat (divRoundUp n s) = unat n div unat s + (if unat n mod unat s > 0 then 1 else 0)"
proof -
  have sp: "0 < unat s" using s by (simp add: unat_gt_0)
  have md: "(0 < n mod s) = (0 < unat n mod unat s)"
    by (simp add: word_less_nat_alt unat_mod)
  show ?thesis
  proof (cases "0 < unat n mod unat s")
    case False
    then show ?thesis by (simp add: divRoundUp_def md unat_div)
  next
    case True
    have "unat n div unat s * unat s + unat n mod unat s = unat n" by simp
    then have "unat n div unat s * unat s < unat n" using True by linarith
    moreover have "unat n div unat s \<le> unat n div unat s * unat s" using sp by simp
    ultimately have "unat n div unat s < unat n" by linarith
    then have "Suc (unat n div unat s) \<le> unat n" by simp
    moreover have "unat n < 2 ^ LENGTH(32)" by (rule unsigned_less)
    ultimately have "Suc (unat n div unat s) < 2 ^ LENGTH(32)" by (rule le_less_trans)
    then have "unat (n div s) + unat (1 :: word32) < 2 ^ LENGTH(32)" by (simp add: unat_div)
    then have "unat (n div s + 1) = unat (n div s) + unat (1 :: word32)"
      by (rule iffD1 [OF unat_add_lem])
    then show ?thesis using True by (simp add: divRoundUp_def md unat_div)
  qed
qed

lemma unat_add4:
  assumes "unat a + unat b + unat c + unat d < 2 ^ 32"
  shows "unat (a + b + c + d :: word32) = unat a + unat b + unat c + unat d"
proof -
  from assms have t: "unat a + unat b + unat c + unat d < 2 ^ LENGTH(32)" by simp
  have "unat a + unat b \<le> unat a + unat b + unat c + unat d" by simp
  then have "unat a + unat b < 2 ^ LENGTH(32)" using t by (rule le_less_trans)
  then have 1: "unat (a + b) = unat a + unat b" by (rule iffD1 [OF unat_add_lem])
  have "unat a + unat b + unat c \<le> unat a + unat b + unat c + unat d" by simp
  then have "unat a + unat b + unat c < 2 ^ LENGTH(32)" using t by (rule le_less_trans)
  then have "unat (a + b) + unat c < 2 ^ LENGTH(32)" by (simp only: 1)
  then have "unat (a + b + c) = unat (a + b) + unat c" by (rule iffD1 [OF unat_add_lem])
  then have 2: "unat (a + b + c) = unat a + unat b + unat c" by (simp only: 1)
  have "unat (a + b + c) + unat d < 2 ^ LENGTH(32)" using t by (simp only: 2)
  then have "unat (a + b + c + d) = unat (a + b + c) + unat d" by (rule iffD1 [OF unat_add_lem])
  then show ?thesis by (simp only: 2)
qed

text \<open>
  C6. The number of page table entries that the constructor from a file creates is
  the sum of the sizes of the code, the initialised data, the uninitialised data and
  the stack, divided by the page size and rounded up, for an image whose sizes add up
  without overflow; a code segment of 128 bytes with pages of 128 bytes and a stack of
  1024 bytes gives 9 pages.
\<close>

theorem from_file_numPages:
  assumes r: "AddrSpace_from_file cfg executable sys = Inr (this, sys')"
    and fit: "unat (size_seg (code (readHeader cfg executable)))
              + unat (size_seg (initData (readHeader cfg executable)))
              + unat (size_seg (uninitData (readHeader cfg executable)))
              + unat (UserStackSize cfg) < 2 ^ 32"
  shows "length (pageTable this) = unat (numPages this) \<and>
         int (unat (numPages this))
           = \<lceil>real (unat (size_seg (code (readHeader cfg executable)))
                     + unat (size_seg (initData (readHeader cfg executable)))
                     + unat (size_seg (uninitData (readHeader cfg executable)))
                     + unat (UserStackSize cfg))
               / real (unat (PageSize cfg))\<rceil> \<and>
         (size_seg (code (readHeader cfg executable)) = 128 \<and>
          size_seg (initData (readHeader cfg executable)) = 0 \<and>
          size_seg (uninitData (readHeader cfg executable)) = 0 \<and>
          PageSize cfg = 128 \<and> UserStackSize cfg = 1024 \<longrightarrow> numPages this = 9)"
proof -
  let ?h = "readHeader cfg executable"
  let ?size = "size_seg (code ?h) + size_seg (initData ?h) + size_seg (uninitData ?h) + UserStackSize cfg"
  let ?t = "unat (size_seg (code ?h)) + unat (size_seg (initData ?h)) + unat (size_seg (uninitData ?h))
              + unat (UserStackSize cfg)"
  note f = from_file_Inr [OF r]
  have ps: "0 < unat (PageSize cfg)" using f(1) by (simp add: unat_gt_0)
  have n: "numPages this = divRoundUp ?size (PageSize cfg)" by (rule f(3))
  have "length (map (\<lambda>e. e\<lparr>use := False\<rparr>) (pageTable this))
      = length (fillPageTable 0 (numPages this) (totalPagesCount sys) (replicate (unat (numPages this)) unset))"
    by (simp only: f(7))
  then have 1: "length (pageTable this) = unat (numPages this)" by (simp add: fillPageTable_fresh)
  have t: "unat ?size = ?t" using fit by (rule unat_add4)
  have "unat (numPages this) = ?t div unat (PageSize cfg) + (if ?t mod unat (PageSize cfg) > 0 then 1 else 0)"
    unfolding n divRoundUp_nat [OF f(1)] t by (rule refl)
  then have 2: "int (unat (numPages this)) = \<lceil>real ?t / real (unat (PageSize cfg))\<rceil>"
    by (simp only: ceiling_div_nat [OF ps])
  have 3: "numPages this = 9"
    if "size_seg (code ?h) = 128 \<and> size_seg (initData ?h) = 0 \<and> size_seg (uninitData ?h) = 0 \<and>
        PageSize cfg = 128 \<and> UserStackSize cfg = 1024"
    using that by (simp add: n divRoundUp_def)
  show ?thesis using 1 2 3 by blast
qed

lemma demo_image_fits:
  "unat (size_seg (code (readHeader stock_config demo_image)))
     + unat (size_seg (initData (readHeader stock_config demo_image)))
     + unat (size_seg (uninitData (readHeader stock_config demo_image)))
     + unat (UserStackSize stock_config) < 2 ^ 32"
  by (simp add: readHeader_def demo_image_def stock_config_def)

theorem from_file_numPages_witness:
  "\<exists>this sys'. AddrSpace_from_file stock_config demo_image boot_system = Inr (this, sys') \<and>
     numPages this = 9 \<and> length (pageTable this) = 9 \<and> take 128 (mainMemory sys') = replicate 128 42"
proof -
  obtain this sys' where r: "AddrSpace_from_file stock_config demo_image boot_system = Inr (this, sys')"
    and m: "take 128 (mainMemory sys') = replicate 128 42"
    using demo_boot by blast
  have "numPages this = 9 \<and> length (pageTable this) = unat (numPages this)"
    using from_file_numPages [OF r demo_image_fits]
    by (simp add: readHeader_def demo_image_def stock_config_def)
  then have "numPages this = 9 \<and> length (pageTable this) = 9" by simp
  with r m show ?thesis by blast
qed

subsection \<open>The scenarios of the second image and of the fork\<close>

lemma small_stack_ok: "machine_ok (stock_config\<lparr>UserStackSize := 256\<rparr>)"
  using stock_config_ok by (simp add: machine_ok_def)

lemma fork_demo:
  "\<exists>this sys'. AddrSpace_from_parent stock_config 9 9 forking_system = Inr (this, sys')"
  by (simp add: AddrSpace_from_parent_def stock_config_def forking_system_def Let_def
       word_le_nat_alt word_less_nat_alt word_sle_eq copyParent.simps)

theorem construction_page_table_witness:
  "machine_ok (stock_config\<lparr>UserStackSize := 256\<rparr>) \<and>
   totalPagesCount busy_system \<le> NumPhysPages (stock_config\<lparr>UserStackSize := 256\<rparr>) \<and>
   (\<exists>this sys'.
      AddrSpace_from_file (stock_config\<lparr>UserStackSize := 256\<rparr>) demo_image busy_system = Inr (this, sys') \<and>
      numPages this = 3 \<and> map physicalPage (pageTable this) = [9, 10, 11] \<and>
      pageTable this ! 1 = entry_at 1 10 True \<and> pageTable this ! 2 = entry_at 2 11 True \<and>
      totalPagesCount sys' = 12) \<and>
   machine_ok stock_config \<and>
   totalPagesCount forking_system \<le> NumPhysPages stock_config \<and>
   (\<exists>this sys'.
      AddrSpace_from_parent stock_config 9 9 forking_system = Inr (this, sys') \<and>
      numPages this = 9 \<and> length (pageTable this) = 9 \<and>
      pageTable this ! 0 = entry_at 0 18 True \<and> pageTable this ! 8 = entry_at 8 26 True \<and>
      totalPagesCount sys' = 27)"
proof -
  let ?cfg = "stock_config\<lparr>UserStackSize := 256\<rparr>"
  have inv: "totalPagesCount busy_system \<le> NumPhysPages ?cfg"
    by (simp add: busy_system_def stock_config_def)
  have "\<exists>this sys'. AddrSpace_from_file ?cfg demo_image busy_system = Inr (this, sys') \<and> numPages this = 3"
    by (simp add: AddrSpace_from_file_def readHeader_def demo_image_def stock_config_def busy_system_def
       divRoundUp_def Let_def bzero_def word_le_nat_alt word_sle_eq loadSegment_def fillPageTable_entries
       upt_conv_Cons Translate_def ReadAt_def)
  then obtain this sys' where r: "AddrSpace_from_file ?cfg demo_image busy_system = Inr (this, sys')"
    and n: "numPages this = 3"
    by blast
  have c: "totalPagesCount busy_system = 9" by (simp add: busy_system_def)
  note t = construction_page_table [OF small_stack_ok inv disjI1 [OF r]]
  have fr: "map physicalPage (pageTable this) = [9, 10, 11] \<and> totalPagesCount sys' = 12"
    using t c n by blast
  have un: "\<forall>i < unat (numPages this).
      (size_seg (code (readHeader ?cfg demo_image)) = 0 \<or>
       i \<noteq> unat (virtualAddr (code (readHeader ?cfg demo_image))) div unat (PageSize ?cfg)) \<longrightarrow>
      (size_seg (initData (readHeader ?cfg demo_image)) = 0 \<or>
       i \<noteq> unat (virtualAddr (initData (readHeader ?cfg demo_image))) div unat (PageSize ?cfg)) \<longrightarrow>
      pageTable this ! i
        = \<lparr>virtualPage = word_of_nat i, physicalPage = word_of_nat i + totalPagesCount busy_system,
           valid = True, readOnly = False, use = False, dirty = False\<rparr>"
    using t r by blast
  have e1: "pageTable this ! 1 = entry_at 1 10 True"
    using un [rule_format, of 1]
    by (simp add: n c readHeader_def demo_image_def stock_config_def entry_at_def)
  have e2: "pageTable this ! 2 = entry_at 2 11 True"
    using un [rule_format, of 2]
    by (simp add: n c readHeader_def demo_image_def stock_config_def entry_at_def)
  have img: "\<exists>this sys'. AddrSpace_from_file ?cfg demo_image busy_system = Inr (this, sys') \<and>
      numPages this = 3 \<and> map physicalPage (pageTable this) = [9, 10, 11] \<and>
      pageTable this ! 1 = entry_at 1 10 True \<and> pageTable this ! 2 = entry_at 2 11 True \<and>
      totalPagesCount sys' = 12"
    using r n fr e1 e2 by (intro exI [of _ this] exI [of _ sys']) simp
  have inv2: "totalPagesCount forking_system \<le> NumPhysPages stock_config"
    by (simp add: forking_system_def stock_config_def)
  obtain child sys2 where p: "AddrSpace_from_parent stock_config 9 9 forking_system = Inr (child, sys2)"
    using fork_demo by blast
  note u = construction_page_table [OF stock_config_ok inv2 disjI2 [OF p]]
  have c2: "totalPagesCount forking_system = 18" by (simp add: forking_system_def)
  have pn: "numPages child = 9 \<and>
      (\<forall>i < unat (9 :: word32). pageTable child ! i
         = \<lparr>virtualPage = word_of_nat i, physicalPage = word_of_nat i + totalPagesCount forking_system,
            valid = True, readOnly = False, use = False, dirty = False\<rparr>)"
    using u p by blast
  have l9: "length (pageTable child) = 9" using u pn by simp
  have cnt: "totalPagesCount sys2 = 27"
  proof -
    have "totalPagesCount sys2 = totalPagesCount forking_system + numPages child" using u by blast
    then show ?thesis using pn c2 by simp
  qed
  have f0: "pageTable child ! 0 = entry_at 0 18 True"
    using pn [THEN conjunct2, rule_format, of 0] by (simp add: c2 entry_at_def)
  have f8: "pageTable child ! 8 = entry_at 8 26 True"
    using pn [THEN conjunct2, rule_format, of 8] by (simp add: c2 entry_at_def)
  have frk: "\<exists>this sys'. AddrSpace_from_parent stock_config 9 9 forking_system = Inr (this, sys') \<and>
      numPages this = 9 \<and> length (pageTable this) = 9 \<and>
      pageTable this ! 0 = entry_at 0 18 True \<and> pageTable this ! 8 = entry_at 8 26 True \<and>
      totalPagesCount sys' = 27"
    using p pn l9 f0 f8 cnt by (intro exI [of _ child] exI [of _ sys2]) simp
  from small_stack_ok inv img stock_config_ok inv2 frk show ?thesis by (intro conjI)
qed

subsection \<open>The zero fill and the copy of the parent\<close>

text \<open>
  C2. The claim: the zero fill of the constructor from a file clears exactly the bytes
  of the frames it has just committed and leaves every other byte of the memory,
  in particular that of the address spaces built before, unchanged. The code calls
  \<^verbatim>\<open>bzero(machine->mainMemory, totalPagesCount * PageSize)\<close>, which clears from byte 0
  on: with 9 frames committed before and every byte of the memory 7, loading the
  image on frames 9 to 17 leaves bytes 0 to 1151, the frames of the earlier address
  space, all 0.
\<close>

theorem zero_fill_clears_earlier_frames:
  "\<exists>this sys'. AddrSpace_from_file stock_config demo_image busy_system = Inr (this, sys') \<and>
     map physicalPage (pageTable this) = [9, 10, 11, 12, 13, 14, 15, 16, 17] \<and>
     totalPagesCount busy_system = 9 \<and> totalPagesCount sys' = 18 \<and>
     take 1152 (mainMemory busy_system) = replicate 1152 7 \<and>
     take 1152 (mainMemory sys') = replicate 1152 0"
  by (simp add: AddrSpace_from_file_def readHeader_def demo_image_def stock_config_def busy_system_def
       divRoundUp_def Let_def bzero_def word_le_nat_alt word_sle_eq loadSegment_def fillPageTable_entries
       upt_conv_Cons Translate_def ReadAt_def)

text \<open>
  C1. The claim: the constructor \<open>AddrSpace(p, b)\<close> gives the child \<open>p\<close> pages on fresh
  frames and copies the bytes of the frames \<open>b\<close> to \<open>b + p - 1\<close> of the parent into
  them. The code starts the copy at \<^verbatim>\<open>parentStartPhysPage * PageSize\<close> and ends it at
  \<^verbatim>\<open>parentStartPhysPage + numPages * PageSize\<close>, a frame number added to a byte count:
  for a parent of 9 pages on frames 9 to 17, holding the byte 7 everywhere, the loop
  runs from 1152 to 1161; the child on frames 18 to 26 receives 9 bytes, and from its
  tenth byte on it keeps the 0 it had.
\<close>

theorem fork_copies_nine_bytes:
  "\<exists>this sys'. AddrSpace_from_parent stock_config 9 9 forking_system = Inr (this, sys') \<and>
     numPages this = 9 \<and>
     map physicalPage (pageTable this) = [18, 19, 20, 21, 22, 23, 24, 25, 26] \<and>
     totalPagesCount sys' = 27 \<and>
     take 1152 (drop (9 * 128) (mainMemory sys')) = replicate 1152 7 \<and>
     mainMemory sys' ! (18 * 128 + 8) = 7 \<and>
     mainMemory sys' ! (18 * 128 + 9) = 0 \<and>
     mainMemory sys' ! (18 * 128 + 1151) = 0"
  by (simp add: AddrSpace_from_parent_def stock_config_def forking_system_def Let_def
       word_le_nat_alt word_less_nat_alt word_sle_eq fillPageTable_entries upt_conv_Cons copyParent.simps
       nth_append nth_list_update list_update_append drop_update_swap)

end
